theory Spec2Isabelle
  imports Main
begin

unbundle bit_operations_syntax

section \<open>Python built-ins used by the scanner\<close>

text \<open>
  The scanner is a single Python module. Python integers are unbounded, so they are
  modelled by \<^typ>\<open>int\<close>; \<open>x << k\<close> is \<^const>\<open>push_bit\<close>, \<open>x >> k\<close> is
  \<^const>\<open>drop_bit\<close>, and \<open>&\<close>, \<open>|\<close>, \<open>~\<close> are the bitwise operations of
  \<^typ>\<open>int\<close>. Strings are lists of characters; a character is a code point below 256.
  Every exception the module can raise or let through is a value of \<open>exn\<close>; a function
  that may raise returns \<open>exn + 'a\<close>.
\<close>

datatype exn =
    ValueError        \<comment> \<open>raised by \<open>int(s)\<close>, by tuple unpacking and by a negative shift count\<close>
  | ResourceError     \<comment> \<open>\<open>OverflowError\<close> or \<open>MemoryError\<close>: a shift the interpreter cannot carry out\<close>
  | herror            \<comment> \<open>\<open>socket.herror\<close>\<close>
  | gaierror          \<comment> \<open>\<open>socket.gaierror\<close>\<close>
  | OtherException    \<comment> \<open>any exception that is none of the above\<close>

subsection \<open>\<open>str(n)\<close> for an integer\<close>

definition digit_char :: "nat \<Rightarrow> char" where
  "digit_char k = char_of (48 + k)"

fun str_nat :: "nat \<Rightarrow> string" where
  "str_nat n = (if n < 10 then [digit_char n] else str_nat (n div 10) @ [digit_char (n mod 10)])"

declare str_nat.simps [simp del]

definition str :: "int \<Rightarrow> string" where
  "str i = (if i < 0 then CHR ''-'' # str_nat (nat (- i)) else str_nat (nat i))"

subsection \<open>\<open>int(s)\<close> for a string\<close>

text \<open>
  \<open>int(s)\<close> strips surrounding white space, accepts one optional sign, and then requires
  decimal digits, where single underscores may separate digits; anything else raises
  \<open>ValueError\<close> (here: \<open>None\<close>). Among the code points below 256 the white space
  that \<open>int\<close> strips is tab, line feed, vertical tab, form feed, carriage return, space,
  next line (\<open>0x85\<close>) and no-break space (\<open>0xA0\<close>), and the decimal digits are
  \<open>0\<close> to \<open>9\<close>. A literal of more than 4300 digits raises \<open>ValueError\<close> as well
  (the interpreter's default limit, \<open>sys.get_int_max_str_digits()\<close>).
\<close>

definition is_space :: "char \<Rightarrow> bool" where
  "is_space c \<longleftrightarrow>
     (9 \<le> (of_char c :: nat) \<and> (of_char c :: nat) \<le> 13) \<or> (of_char c :: nat) = 32 \<or>
     (of_char c :: nat) = 0x85 \<or> (of_char c :: nat) = 0xA0"

definition int_max_str_digits :: nat where
  "int_max_str_digits = 4300"

definition is_digit :: "char \<Rightarrow> bool" where
  "is_digit c \<longleftrightarrow> 48 \<le> (of_char c :: nat) \<and> (of_char c :: nat) \<le> 57"

definition digit_val :: "char \<Rightarrow> nat" where
  "digit_val c = of_char c - 48"

definition strip :: "string \<Rightarrow> string" where
  "strip s = rev (dropWhile is_space (rev (dropWhile is_space s)))"

fun int_digits :: "int \<Rightarrow> string \<Rightarrow> int option" where
  "int_digits acc [] = Some acc"
| "int_digits acc (c # cs) =
     (if is_digit c then int_digits (10 * acc + int (digit_val c)) cs
      else if c = CHR ''_'' then
        (case cs of
           [] \<Rightarrow> None
         | d # ds \<Rightarrow> if is_digit d then int_digits (10 * acc + int (digit_val d)) ds else None)
      else None)"

definition int_unsigned :: "string \<Rightarrow> int option" where
  "int_unsigned s =
     (case s of
        [] \<Rightarrow> None
      | c # cs \<Rightarrow>
          if is_digit c \<and> length (filter is_digit s) \<le> int_max_str_digits
          then int_digits (int (digit_val c)) cs
          else None)"

definition int_py :: "string \<Rightarrow> int option" where
  "int_py s =
     (let t = strip s in
      if t \<noteq> [] \<and> hd t = CHR ''+'' then int_unsigned (tl t)
      else if t \<noteq> [] \<and> hd t = CHR ''-'' then map_option uminus (int_unsigned (tl t))
      else int_unsigned t)"

subsection \<open>\<open>s.split(sep)\<close> and \<open>sep.join(xs)\<close>\<close>

text \<open>
  \<open>s.split(sep)\<close> with a one-character separator: the fields between the occurrences of
  \<open>sep\<close>; there is always at least one field, and fields may be empty.
\<close>

fun str_split :: "char \<Rightarrow> string \<Rightarrow> string list" where
  "str_split sep [] = [[]]"
| "str_split sep (c # cs) =
     (if c = sep then [] # str_split sep cs
      else (c # hd (str_split sep cs)) # tl (str_split sep cs))"

fun str_join :: "string \<Rightarrow> string list \<Rightarrow> string" where
  "str_join sep [] = []"
| "str_join sep [x] = x"
| "str_join sep (x # y # ys) = x @ sep @ str_join sep (y # ys)"

section \<open>Address arithmetic\<close>

text \<open>
  \<^verbatim>\<open>
  def IPToInt(ip):
      a, b, c, d = ip.split(".")
      return (int(a) << 24) | (int(b) << 16) | (int(c) << 8) | int(d)
  \<close>
  \<open>IPToInt\<close> unpacks \<open>ip.split(".")\<close> into exactly four names (anything else raises
  \<open>ValueError\<close>), converts each field with \<open>int\<close> and packs the four values. The fields
  are not range-checked.
\<close>

definition IPToInt :: "string \<Rightarrow> exn + int" where
  "IPToInt ip =
     (case str_split CHR ''.'' ip of
        [a, b, c, d] \<Rightarrow>
          (case int_py a of None \<Rightarrow> Inl ValueError | Some a' \<Rightarrow>
          (case int_py b of None \<Rightarrow> Inl ValueError | Some b' \<Rightarrow>
          (case int_py c of None \<Rightarrow> Inl ValueError | Some c' \<Rightarrow>
          (case int_py d of None \<Rightarrow> Inl ValueError | Some d' \<Rightarrow>
             Inr (push_bit 24 a' OR push_bit 16 b' OR push_bit 8 c' OR d')))))
      | _ \<Rightarrow> Inl ValueError)"

text \<open>
  \<^verbatim>\<open>
  def intToIP(n):
      return ".".join(str((n >> s) & 0xFF) for s in (24, 16, 8, 0))
  \<close>
\<close>

definition intToIP :: "int \<Rightarrow> string" where
  "intToIP n = str_join ''.'' (map (\<lambda>s. str (drop_bit s n AND 0xFF)) [24, 16, 8, 0])"

text \<open>
  \<^verbatim>\<open>
  def cidrToIPS(cidr):
      ip, prefix = cidr.split("/")
      prefix = int(prefix)
      ip_int = IPToInt(ip)
      mask = (0xFFFFFFFF << (32 - prefix)) & 0xFFFFFFFF
      network = ip_int & mask
      broadcast = network | (~mask & 0xFFFFFFFF)
      return [intToIP(i) for i in range(network, broadcast + 1)]
  \<close>
  \<open>cidrToIPS\<close> unpacks \<open>cidr.split("/")\<close> into exactly two names, converts the prefix with
  \<open>int\<close>, then the address with \<open>IPToInt\<close>. A prefix above 32 makes the shift count
  negative, which raises \<open>ValueError\<close>. A shift count above \<open>sys.maxsize\<close> (of a
  64-bit interpreter) raises \<open>OverflowError\<close> or \<open>MemoryError\<close>; memory that runs out
  below that count, or while the list is built, is not modelled.
  \<open>range(network, broadcast + 1)\<close> is the list \<open>[network..broadcast]\<close>.
\<close>

definition sys_maxsize :: int where
  "sys_maxsize = 2 ^ 63 - 1"

definition cidrToIPS :: "string \<Rightarrow> exn + string list" where
  "cidrToIPS cidr =
     (case str_split CHR ''/'' cidr of
        [ip, prefix_str] \<Rightarrow>
          (case int_py prefix_str of
             None \<Rightarrow> Inl ValueError
           | Some prefix \<Rightarrow>
              (case IPToInt ip of
                 Inl e \<Rightarrow> Inl e
               | Inr ip_int \<Rightarrow>
                  if 32 - prefix < 0 then Inl ValueError
                  else if sys_maxsize < 32 - prefix then Inl ResourceError
                  else
                    let mask = push_bit (nat (32 - prefix)) 0xFFFFFFFF AND 0xFFFFFFFF;
                        network = ip_int AND mask;
                        broadcast = network OR (NOT mask AND 0xFFFFFFFF)
                    in Inr (map intToIP [network..broadcast])))
      | _ \<Rightarrow> Inl ValueError)"

section \<open>Canonical address strings\<close>

text \<open>
  The properties below speak about valid dotted-decimal strings. A field is a canonical
  decimal numeral up to a bound \<open>m\<close>: a non-empty run of digits, with no leading zero
  unless it is the single digit \<open>0\<close>, whose value is at most \<open>m\<close>. A valid address
  has exactly four such fields up to 255, separated by dots; a valid CIDR string is a valid
  address, a slash, and a canonical prefix length up to 32. These predicates do not occur
  in the source, which validates nothing; they only delimit the inputs of the properties.
\<close>

definition decimal_value :: "string \<Rightarrow> nat" where
  "decimal_value ds = foldl (\<lambda>acc c. 10 * acc + digit_val c) 0 ds"

definition decimal_upto :: "nat \<Rightarrow> string \<Rightarrow> bool" where
  "decimal_upto m f \<longleftrightarrow>
     f \<noteq> [] \<and> list_all is_digit f \<and> (hd f = CHR ''0'' \<longrightarrow> length f = 1) \<and> decimal_value f \<le> m"

definition valid_ip :: "string \<Rightarrow> bool" where
  "valid_ip s \<longleftrightarrow>
     length (str_split CHR ''.'' s) = 4 \<and> list_all (decimal_upto 255) (str_split CHR ''.'' s)"

definition valid_cidr :: "string \<Rightarrow> bool" where
  "valid_cidr s \<longleftrightarrow>
     (case str_split CHR ''/'' s of
        [ip, pfx] \<Rightarrow> valid_ip ip \<and> decimal_upto 32 pfx
      | _ \<Rightarrow> False)"

text \<open>
  The 32-bit mask with the top \<open>p\<close> bits set, and its complement within 32 bits.
\<close>

definition netmask :: "nat \<Rightarrow> int" where
  "netmask p = 2 ^ 32 - 2 ^ (32 - p)"

definition hostmask :: "nat \<Rightarrow> int" where
  "hostmask p = 2 ^ (32 - p) - 1"

section \<open>The environment\<close>

text \<open>
  Pinging, resolving, printing, reading the clock and writing the CSV file act on the
  world outside the program. The world is a value of an arbitrary type \<open>'w\<close> that every
  such call takes and returns; what the calls do is given by an environment \<open>E\<close>:
  \<^item> \<open>os_system E cmd\<close> is \<open>os.system(cmd)\<close>: it hands the string \<open>cmd\<close> to the shell
    and returns the exit status;
  \<^item> \<open>gethostbyaddr E ip\<close> is \<open>socket.gethostbyaddr(ip)\<close>: it returns the triple
    (hostname, aliases, addresses) or raises: \<open>socket.herror\<close>, \<open>socket.gaierror\<close>,
    or something else (for instance \<open>UnicodeError\<close>, which the call raises for a host
    name with an empty or over-long label such as \<open>a..b\<close>);
  \<^item> \<open>stdout_write E s\<close> is the write of the line \<open>s\<close> to the standard output that
    \<open>print(s)\<close> makes; it raises when the output is closed or broken;
  \<^item> \<open>strftime_now E\<close> is \<open>datetime.now().strftime("%Y%m%d_%H%M%S")\<close>;
  \<^item> \<open>to_csv E rows path\<close> is \<open>pd.DataFrame(rows).to_csv(path, index=False)\<close>; it
    raises when the file cannot be written.
\<close>

record csv_row =
  col_ip_address :: string
  col_status :: string
  col_hostname :: string
  col_aliases :: string
  col_addresses :: string
  col_dns_error :: string

record 'w env =
  os_system :: "string \<Rightarrow> 'w \<Rightarrow> (exn + int) \<times> 'w"
  gethostbyaddr :: "string \<Rightarrow> 'w \<Rightarrow> (exn + string \<times> string list \<times> string list) \<times> 'w"
  stdout_write :: "string \<Rightarrow> 'w \<Rightarrow> (exn + unit) \<times> 'w"
  strftime_now :: "'w \<Rightarrow> string \<times> 'w"
  to_csv :: "csv_row list \<Rightarrow> string \<Rightarrow> 'w \<Rightarrow> (exn + unit) \<times> 'w"

text \<open>
  The state of a run is the list of the lines printed so far together with the world.
  \<open>print(s)\<close> either raises, and prints nothing, or adds the line \<open>s\<close>.
\<close>

type_synonym 'w state = "string list \<times> 'w"

definition print_line :: "'w env \<Rightarrow> string \<Rightarrow> 'w state \<Rightarrow> (exn + unit) \<times> 'w state" where
  "print_line E s st =
     (case stdout_write E s (snd st) of
        (Inl e, w') \<Rightarrow> (Inl e, (fst st, w'))
      | (Inr u, w') \<Rightarrow> (Inr (), (fst st @ [s], w')))"

section \<open>The scanner\<close>

text \<open>
  The dictionary that \<open>reverseDNS\<close> returns has the keys \<open>ip\<close>, \<open>hostname\<close>,
  \<open>aliases\<close>, \<open>addresses\<close> and, on failure only, \<open>error\<close>; an absent \<open>error\<close> key
  is \<open>None\<close>. The dictionary that \<open>runList\<close> appends per host has the keys \<open>ip\<close>,
  \<open>status\<close> and \<open>dns\<close>.
\<close>

record dns_info =
  dns_ip :: string
  dns_hostname :: "string option"
  dns_aliases :: "string list"
  dns_addresses :: "string list"
  dns_error :: "string option"

record scan_record =
  rec_ip :: string
  rec_status :: string
  rec_dns :: dns_info

text \<open>
  \<^verbatim>\<open>
  def reverseDNS(ip):
      try:
          hostname, aliases, addresses = socket.gethostbyaddr(ip)
          return {"ip": ip, "hostname": hostname, "aliases": aliases, "addresses": addresses}
      except socket.herror:
          return {"ip": ip, "hostname": None, "aliases": [], "addresses": [],
                  "error": "No PTR record found"}
      except socket.gaierror:
          return {"ip": ip, "hostname": None, "aliases": [], "addresses": [],
                  "error": "Invalid IP address"}
  \<close>
  \<open>reverseDNS\<close> catches \<open>socket.herror\<close> and \<open>socket.gaierror\<close>, which are unrelated
  classes; every other exception leaves the function.
\<close>

definition reverseDNS :: "'w env \<Rightarrow> string \<Rightarrow> 'w \<Rightarrow> (exn + dns_info) \<times> 'w" where
  "reverseDNS E ip w =
     (case gethostbyaddr E ip w of
        (Inr (name, als, addrs), w') \<Rightarrow>
          (Inr \<lparr>dns_ip = ip, dns_hostname = Some name, dns_aliases = als,
                dns_addresses = addrs, dns_error = None\<rparr>, w')
      | (Inl e, w') \<Rightarrow>
          (case e of
             herror \<Rightarrow>
               (Inr \<lparr>dns_ip = ip, dns_hostname = None, dns_aliases = [],
                     dns_addresses = [], dns_error = Some ''No PTR record found''\<rparr>, w')
           | gaierror \<Rightarrow>
               (Inr \<lparr>dns_ip = ip, dns_hostname = None, dns_aliases = [],
                     dns_addresses = [], dns_error = Some ''Invalid IP address''\<rparr>, w')
           | _ \<Rightarrow> (Inl e, w')))"

text \<open>
  \<^verbatim>\<open>
  def pingHost(hostname):
      response = os.system(f"ping -c 1 {hostname} > /dev/null 2>&1")
      return response
  \<close>
  \<open>pingHost\<close> formats the host into a command line and gives that line to the shell.
\<close>

definition pingHost :: "'w env \<Rightarrow> string \<Rightarrow> 'w \<Rightarrow> (exn + int) \<times> 'w" where
  "pingHost E hostname w = os_system E (''ping -c 1 '' @ hostname @ '' > /dev/null 2>&1'') w"

text \<open>
  \<^verbatim>\<open>
  def exportToCSV(results, output_file=None):
      if output_file is None:
          timestamp = datetime.now().strftime("%Y%m%d_%H%M%S")
          output_file = f"scan_results_{timestamp}.csv"
      rows = []
      for r in results:
          dns = r["dns"]
          rows.append({
              "IP Address": r["ip"],
              "Status":     r["status"],
              "Hostname":   dns.get("hostname") or "",
              "Aliases":    ", ".join(dns.get("aliases", [])),
              "Addresses":  ", ".join(dns.get("addresses", [])),
              "DNS Error":  dns.get("error", ""),
          })
      df = pd.DataFrame(rows)
      df.to_csv(output_file, index=False)
      print(f"\nResults exported to: {output_file}")
      return output_file
  \<close>
  \<open>export_path\<close> is the first statement, \<open>csv_row_of\<close> the row of one record. An
  exception of the writer or of the final \<open>print\<close> leaves the function.
\<close>

definition export_path :: "'w env \<Rightarrow> string option \<Rightarrow> 'w \<Rightarrow> string \<times> 'w" where
  "export_path E output_file w =
     (case output_file of
        None \<Rightarrow> (case strftime_now E w of
                   (timestamp, w') \<Rightarrow> (''scan_results_'' @ timestamp @ ''.csv'', w'))
      | Some f \<Rightarrow> (f, w))"

definition csv_row_of :: "scan_record \<Rightarrow> csv_row" where
  "csv_row_of r =
     \<lparr>col_ip_address = rec_ip r,
      col_status = rec_status r,
      col_hostname = (case dns_hostname (rec_dns r) of None \<Rightarrow> [] | Some h \<Rightarrow> h),
      col_aliases = str_join '', '' (dns_aliases (rec_dns r)),
      col_addresses = str_join '', '' (dns_addresses (rec_dns r)),
      col_dns_error = (case dns_error (rec_dns r) of None \<Rightarrow> [] | Some e \<Rightarrow> e)\<rparr>"

definition exportToCSV ::
  "'w env \<Rightarrow> scan_record list \<Rightarrow> string option \<Rightarrow> 'w state \<Rightarrow> (exn + string) \<times> 'w state" where
  "exportToCSV E results output_file st =
     (case export_path E output_file (snd st) of
        (path, w1) \<Rightarrow>
          (case to_csv E (map csv_row_of results) path w1 of
             (Inl e, w2) \<Rightarrow> (Inl e, (fst st, w2))
           | (Inr u, w2) \<Rightarrow>
               (case print_line E (CHR 0x0A # ''Results exported to: '' @ path) (fst st, w2) of
                  (Inl e, st3) \<Rightarrow> (Inl e, st3)
                | (Inr u', st3) \<Rightarrow> (Inr path, st3))))"

text \<open>
  \<^verbatim>\<open>
  def runList(hosts, export_csv=True, csv_file=None):
      active = 0
      inactive = 0
      results = []
      for host in hosts:
          print(f"Pinging {host}...")
          reachable = pingHost(host) == 0
          dns_info = reverseDNS(host)
          if reachable:
              print(f"{host} is reachable.")
              print(f"  Hostname: {dns_info['hostname']}")
              active += 1
              status = "active"
          else:
              print(f"{host} is not reachable.")
              inactive += 1
              status = "inactive"
          results.append({"ip": host, "status": status, "dns": dns_info})
      print(f"\nSummary: {active} active, {inactive} inactive.")
      if export_csv:
          exportToCSV(results, csv_file)
      return results
  \<close>
  \<open>runList_body\<close> is one pass of the \<open>for\<close> loop and \<open>runList_loop\<close> the loop, with
  the three local variables \<open>active\<close>, \<open>inactive\<close> and \<open>results\<close> passed along.
  There is no handler in \<open>runList\<close>: an exception raised by a \<open>print\<close>, by the ping, by
  the lookup or by the export ends the function, and nothing is returned. The two counters
  are not returned; \<open>runList\<close> sets them to zero and prints them in the summary line.
\<close>

definition runList_body ::
  "'w env \<Rightarrow> string \<Rightarrow> int \<Rightarrow> int \<Rightarrow> scan_record list \<Rightarrow> 'w state
     \<Rightarrow> (exn + int \<times> int \<times> scan_record list) \<times> 'w state" where
  "runList_body E host active inactive results st =
     (case print_line E (''Pinging '' @ host @ ''...'') st of
        (Inl e, st1) \<Rightarrow> (Inl e, st1)
      | (Inr u, st1) \<Rightarrow>
          (case pingHost E host (snd st1) of
             (Inl e, w2) \<Rightarrow> (Inl e, (fst st1, w2))
           | (Inr response, w2) \<Rightarrow>
               (case reverseDNS E host w2 of
                  (Inl e, w3) \<Rightarrow> (Inl e, (fst st1, w3))
                | (Inr info, w3) \<Rightarrow>
                    if response = 0 then
                      (case print_line E (host @ '' is reachable.'') (fst st1, w3) of
                         (Inl e, st4) \<Rightarrow> (Inl e, st4)
                       | (Inr u4, st4) \<Rightarrow>
                           (case print_line E
                                   (''  Hostname: '' @
                                      (case dns_hostname info of None \<Rightarrow> ''None'' | Some h \<Rightarrow> h))
                                   st4 of
                              (Inl e, st5) \<Rightarrow> (Inl e, st5)
                            | (Inr u5, st5) \<Rightarrow>
                                (Inr (active + 1, inactive,
                                      results @ [\<lparr>rec_ip = host, rec_status = ''active'',
                                                  rec_dns = info\<rparr>]), st5)))
                    else
                      (case print_line E (host @ '' is not reachable.'') (fst st1, w3) of
                         (Inl e, st4) \<Rightarrow> (Inl e, st4)
                       | (Inr u4, st4) \<Rightarrow>
                           (Inr (active, inactive + 1,
                                 results @ [\<lparr>rec_ip = host, rec_status = ''inactive'',
                                             rec_dns = info\<rparr>]), st4)))))"

fun runList_loop ::
  "'w env \<Rightarrow> string list \<Rightarrow> int \<Rightarrow> int \<Rightarrow> scan_record list \<Rightarrow> 'w state
     \<Rightarrow> (exn + int \<times> int \<times> scan_record list) \<times> 'w state" where
  "runList_loop E [] active inactive results st = (Inr (active, inactive, results), st)"
| "runList_loop E (host # hosts) active inactive results st =
     (case runList_body E host active inactive results st of
        (Inl e, st1) \<Rightarrow> (Inl e, st1)
      | (Inr (active1, inactive1, results1), st1) \<Rightarrow>
          runList_loop E hosts active1 inactive1 results1 st1)"

definition summary_line :: "int \<Rightarrow> int \<Rightarrow> string" where
  "summary_line active inactive =
     CHR 0x0A # ''Summary: '' @ str active @ '' active, '' @ str inactive @ '' inactive.''"

definition runList ::
  "'w env \<Rightarrow> string list \<Rightarrow> bool \<Rightarrow> string option \<Rightarrow> 'w state
     \<Rightarrow> (exn + scan_record list) \<times> 'w state" where
  "runList E hosts export_csv csv_file st =
     (case runList_loop E hosts 0 0 [] st of
        (Inl e, st1) \<Rightarrow> (Inl e, st1)
      | (Inr (active, inactive, results), st1) \<Rightarrow>
          (case print_line E (summary_line active inactive) st1 of
             (Inl e, st2) \<Rightarrow> (Inl e, st2)
           | (Inr u, st2) \<Rightarrow>
               if export_csv then
                 (case exportToCSV E results csv_file st2 of
                    (Inl e, st3) \<Rightarrow> (Inl e, st3)
                  | (Inr path, st3) \<Rightarrow> (Inr results, st3))
               else (Inr results, st2)))"

section \<open>Two simulated networks\<close>

text \<open>
  To run the scanner on concrete inputs, the world is the log of what the program did to
  it. In \<open>lab_net\<close> only \<open>10.0.0.1\<close> answers the ping and has a PTR record; every other
  lookup raises \<open>socket.herror\<close>. The standard output is open. The directory
  \<open>/no/such/dir\<close> does not exist, so writing the file \<open>/no/such/dir/scan.csv\<close>
  raises; every other file can be written. \<open>strict_net\<close> is the same network, except
  that the lookup of a host name with an empty label raises an exception that
  \<open>reverseDNS\<close> does not catch, as \<open>socket.gethostbyaddr("a..b")\<close> does.
\<close>

datatype event =
    Shell string
  | Lookup string
  | Printed string
  | Written "csv_row list" string

definition lab_net :: "event list env" where
  "lab_net =
     \<lparr>os_system = (\<lambda>cmd w.
        (Inr (if cmd = ''ping -c 1 10.0.0.1 > /dev/null 2>&1'' then 0 else 256), w @ [Shell cmd])),
      gethostbyaddr = (\<lambda>ip w.
        (if ip = ''10.0.0.1'' then Inr (''gateway.lab'', [], [''10.0.0.1'']) else Inl herror,
         w @ [Lookup ip])),
      stdout_write = (\<lambda>s w. (Inr (), w @ [Printed s])),
      strftime_now = (\<lambda>w. (''20240101_120000'', w)),
      to_csv = (\<lambda>rows path w.
        if path = ''/no/such/dir/scan.csv'' then (Inl OtherException, w)
        else (Inr (), w @ [Written rows path]))\<rparr>"

definition strict_net :: "event list env" where
  "strict_net =
     lab_net\<lparr>gethostbyaddr := (\<lambda>ip w.
        if ip = ''a..b'' then (Inl OtherException, w @ [Lookup ip])
        else gethostbyaddr lab_net ip w)\<rparr>"

text \<open>The records of a scan of \<open>10.0.0.1\<close> and \<open>10.0.0.2\<close> in these networks.\<close>

definition lab_records :: "scan_record list" where
  "lab_records =
     [\<lparr>rec_ip = ''10.0.0.1'', rec_status = ''active'',
       rec_dns = \<lparr>dns_ip = ''10.0.0.1'', dns_hostname = Some ''gateway.lab'', dns_aliases = [],
                  dns_addresses = [''10.0.0.1''], dns_error = None\<rparr>\<rparr>,
      \<lparr>rec_ip = ''10.0.0.2'', rec_status = ''inactive'',
       rec_dns = \<lparr>dns_ip = ''10.0.0.2'', dns_hostname = None, dns_aliases = [],
                  dns_addresses = [], dns_error = Some ''No PTR record found''\<rparr>\<rparr>]"

section \<open>Predicates on runs and on inputs\<close>

text \<open>
  \<open>run_safe E hosts export_csv csv_file W\<close> says that the calls a scan of \<open>hosts\<close> makes
  do not end it, in any world of the set \<open>W\<close>, and lead to a world of \<open>W\<close> again: a line
  can be printed, the ping of a host of the list yields an exit status, the lookup of a
  host of the list succeeds or raises \<open>socket.herror\<close> or \<open>socket.gaierror\<close>, and, when
  the export is requested, the file of this run can be written.
  \<open>count_status s rs\<close> is the number of records of \<open>rs\<close> whose status is \<open>s\<close>.
\<close>

definition run_safe :: "'w env \<Rightarrow> string list \<Rightarrow> bool \<Rightarrow> string option \<Rightarrow> 'w set \<Rightarrow> bool" where
  "run_safe E hosts export_csv csv_file W \<longleftrightarrow>
     (\<forall>w \<in> W. \<forall>s. \<exists>w' \<in> W. stdout_write E s w = (Inr (), w')) \<and>
     (\<forall>w \<in> W. \<forall>h \<in> set hosts. \<exists>response. \<exists>w' \<in> W. pingHost E h w = (Inr response, w')) \<and>
     (\<forall>w \<in> W. \<forall>h \<in> set hosts. \<exists>r. \<exists>w' \<in> W. gethostbyaddr E h w = (r, w') \<and>
        (\<forall>e. r = Inl e \<longrightarrow> e = herror \<or> e = gaierror)) \<and>
     (export_csv \<longrightarrow>
        (\<forall>w \<in> W. \<exists>path. \<exists>w1 \<in> W. export_path E csv_file w = (path, w1) \<and>
           (\<forall>rows. \<exists>w2 \<in> W. to_csv E rows path w1 = (Inr (), w2))))"

definition count_status :: "string \<Rightarrow> scan_record list \<Rightarrow> int" where
  "count_status s rs = int (length (filter (\<lambda>r. rec_status r = s) rs))"

text \<open>
  \<open>cidr_fields\<close> reads a string the way \<open>cidrToIPS\<close> and \<open>IPToInt\<close> do: two parts
  around one slash, four fields between three dots, and \<open>int\<close> of each of the five
  fields. It gives the four octets and the prefix, whatever their size or sign, and
  \<open>None\<close> when the unpacking or a conversion fails.
\<close>

definition cidr_fields :: "string \<Rightarrow> (int \<times> int \<times> int \<times> int \<times> int) option" where
  "cidr_fields cidr =
     (case str_split CHR ''/'' cidr of
        [ip, pfx] \<Rightarrow>
          (case str_split CHR ''.'' ip of
             [a, b, c, d] \<Rightarrow>
               (case int_py a of None \<Rightarrow> None | Some a' \<Rightarrow>
               (case int_py b of None \<Rightarrow> None | Some b' \<Rightarrow>
               (case int_py c of None \<Rightarrow> None | Some c' \<Rightarrow>
               (case int_py d of None \<Rightarrow> None | Some d' \<Rightarrow>
               (case int_py pfx of None \<Rightarrow> None | Some p \<Rightarrow> Some (a', b', c', d', p))))))
           | _ \<Rightarrow> None)
      | _ \<Rightarrow> None)"


section \<open>Decimal numerals\<close>


lemma is_digit_digit_char: "k < 10 \<Longrightarrow> is_digit (digit_char k)"
  by (simp add: is_digit_def digit_char_def)

lemma digit_val_digit_char: "k < 10 \<Longrightarrow> digit_val (digit_char k) = k"
  by (simp add: digit_val_def digit_char_def)

lemma digit_char_digit_val: "is_digit c \<Longrightarrow> digit_char (digit_val c) = c"
  by (simp add: is_digit_def digit_val_def digit_char_def)

lemma digit_val_less: "is_digit c \<Longrightarrow> digit_val c < 10"
  by (auto simp add: is_digit_def digit_val_def)

lemma is_digit_not_space: "is_digit c \<Longrightarrow> \<not> is_space c"
  by (auto simp add: is_digit_def is_space_def)

lemma is_digit_not_special:
  "is_digit c \<Longrightarrow> c \<noteq> CHR ''+'' \<and> c \<noteq> CHR ''-'' \<and> c \<noteq> CHR ''.'' \<and> c \<noteq> CHR ''/'' \<and> c \<noteq> CHR ''_''"
  by (auto simp add: is_digit_def)

lemma str_nat_digits: "list_all is_digit (str_nat n)"
proof (induction n rule: str_nat.induct)
  case (1 n)
  show ?case
  proof (cases "n < 10")
    case True
    then show ?thesis by (simp add: str_nat.simps [of n] is_digit_digit_char)
  next
    case False
    with 1 show ?thesis by (simp add: str_nat.simps [of n] is_digit_digit_char)
  qed
qed

lemma str_nat_nonempty: "str_nat n \<noteq> []"
  by (subst str_nat.simps) simp

lemma decimal_value_str_nat: "decimal_value (str_nat n) = n"
proof (induction n rule: str_nat.induct)
  case (1 n)
  show ?case
  proof (cases "n < 10")
    case True
    then show ?thesis by (simp add: str_nat.simps [of n] decimal_value_def digit_val_digit_char)
  next
    case False
    with 1 have "decimal_value (str_nat (n div 10)) = n div 10" by simp
    with False show ?thesis
      by (simp add: str_nat.simps [of n] decimal_value_def digit_val_digit_char)
  qed
qed

lemma int_digits_all:
  "list_all is_digit ds \<Longrightarrow>
   int_digits (int a) ds = Some (int (foldl (\<lambda>acc c. 10 * acc + digit_val c) a ds))"
proof (induction ds arbitrary: a)
  case Nil
  show ?case by simp
next
  case (Cons c ds)
  have eq: "10 * int a + int (digit_val c) = int (10 * a + digit_val c)" by simp
  from Cons.prems have "is_digit c" "list_all is_digit ds" by simp_all
  then show ?case
    by (simp only: int_digits.simps if_True eq Cons.IH foldl_Cons)
qed

lemma filter_digits: "list_all is_digit ds \<Longrightarrow> filter is_digit ds = ds"
  by (induction ds) simp_all

lemma int_unsigned_digits:
  assumes "ds \<noteq> []" "list_all is_digit ds" "length ds \<le> 4300"
  shows "int_unsigned ds = Some (int (decimal_value ds))"
proof -
  from assms(1) obtain c cs where ds: "ds = c # cs" by (cases ds) auto
  from assms(2,3) have "length (filter is_digit ds) \<le> int_max_str_digits"
    by (simp add: filter_digits int_max_str_digits_def)
  with assms(2) ds show ?thesis
    by (simp add: int_unsigned_def decimal_value_def int_digits_all)
qed

lemma dropWhile_space_digits:
  "list_all is_digit ds \<Longrightarrow> dropWhile is_space ds = ds"
  by (cases ds) (simp_all add: is_digit_not_space)

lemma strip_digits: "list_all is_digit ds \<Longrightarrow> strip ds = ds"
  by (simp add: strip_def dropWhile_space_digits)

lemma int_py_digits:
  assumes "ds \<noteq> []" "list_all is_digit ds" "length ds \<le> 4300"
  shows "int_py ds = Some (int (decimal_value ds))"
proof -
  from assms have "is_digit (hd ds)" by (cases ds) simp_all
  then have "hd ds \<noteq> CHR ''+''" "hd ds \<noteq> CHR ''-''"
    using is_digit_not_special by blast+
  with assms show ?thesis
    by (simp add: int_py_def strip_digits int_unsigned_digits)
qed

text \<open>
  A literal with more than 4300 digits is rejected, whatever else it contains.
\<close>

lemma filter_digit_dropWhile_space:
  "filter is_digit (dropWhile is_space s) = filter is_digit s"
proof (induction s)
  case Nil
  show ?case by simp
next
  case (Cons c cs)
  then show ?case using is_digit_not_space [of c] by auto
qed

lemma filter_digit_strip: "filter is_digit (strip s) = filter is_digit s"
proof -
  have "filter is_digit (strip s)
      = rev (filter is_digit (dropWhile is_space (rev (dropWhile is_space s))))"
    by (simp add: strip_def rev_filter)
  also have "\<dots> = rev (filter is_digit (rev (dropWhile is_space s)))"
    by (simp only: filter_digit_dropWhile_space)
  also have "\<dots> = filter is_digit (dropWhile is_space s)"
    by (simp add: rev_filter)
  finally show ?thesis by (simp only: filter_digit_dropWhile_space)
qed

lemma int_unsigned_digit_limit:
  "int_max_str_digits < length (filter is_digit s) \<Longrightarrow> int_unsigned s = None"
  by (cases s) (simp_all add: int_unsigned_def)

lemma int_py_digit_limit:
  assumes "int_max_str_digits < length (filter is_digit s)"
  shows "int_py s = None"
proof -
  let ?t = "strip s"
  from assms have t: "int_max_str_digits < length (filter is_digit ?t)"
    by (simp only: filter_digit_strip)
  have tl: "int_max_str_digits < length (filter is_digit (tl ?t))"
    if "?t \<noteq> []" "\<not> is_digit (hd ?t)"
    using that t by (cases ?t) simp_all
  have plus: "\<not> is_digit CHR ''+''" and minus: "\<not> is_digit CHR ''-''"
    by (simp_all add: is_digit_def)
  show ?thesis
    using t tl plus minus
    by (auto simp add: int_py_def Let_def int_unsigned_digit_limit)
qed

text \<open>
  Some literals: white space around the digits (also the no-break space), one sign and
  single underscores between digits are accepted; a space after the sign, a doubled or
  final underscore, a hexadecimal prefix and the empty string are not.
\<close>

lemma int_py_examples:
  "int_py (CHR 0xA0 # ''32'') = Some 32"
  "int_py '' +1_0 '' = Some 10"
  "int_py ''-007'' = Some (- 7)"
  "int_py ''+ 1'' = None"
  "int_py ''1__0'' = None"
  "int_py ''1_'' = None"
  "int_py ''0x10'' = None"
  "int_py [] = None"
  by code_simp+

lemma str_nat_length: "n < 1000 \<Longrightarrow> length (str_nat n) \<le> 3"
  by (simp add: str_nat.simps [of n] str_nat.simps [of "n div 10"]
      str_nat.simps [of "n div 10 div 10"])

lemma int_py_str_nat: "n < 1000 \<Longrightarrow> int_py (str_nat n) = Some (int n)"
  using str_nat_length [of n]
  by (simp add: int_py_digits str_nat_nonempty str_nat_digits decimal_value_str_nat)

lemma foldl_digits_ge: "a \<le> foldl (\<lambda>acc c. 10 * acc + digit_val c) a ds"
proof (induction ds arbitrary: a)
  case Nil
  show ?case by simp
next
  case (Cons c ds)
  have "a \<le> 10 * a + digit_val c" by simp
  also have "\<dots> \<le> foldl (\<lambda>acc c. 10 * acc + digit_val c) (10 * a + digit_val c) ds"
    by (rule Cons.IH)
  finally show ?case by simp
qed

lemma decimal_value_pos:
  assumes "ds \<noteq> []" "list_all is_digit ds" "hd ds \<noteq> CHR ''0''"
  shows "0 < decimal_value ds"
proof -
  from assms obtain c cs where ds: "ds = c # cs" by (cases ds) auto
  with assms have "is_digit c" "c \<noteq> CHR ''0''" by simp_all
  then have "0 < digit_val c"
  proof (cases "digit_val c = 0")
    case True
    with \<open>is_digit c\<close> have "(of_char c :: nat) = of_char CHR ''0''"
      by (simp add: is_digit_def digit_val_def)
    then have "c = CHR ''0''" by (simp only: of_char_eq_iff)
    with \<open>c \<noteq> CHR ''0''\<close> show ?thesis by simp
  qed simp
  moreover have "digit_val c \<le> decimal_value ds"
    using foldl_digits_ge [of "digit_val c" cs] by (simp add: ds decimal_value_def)
  ultimately show ?thesis by simp
qed

lemma str_nat_decimal_value:
  "ds \<noteq> [] \<Longrightarrow> list_all is_digit ds \<Longrightarrow> (hd ds = CHR ''0'' \<longrightarrow> length ds = 1) \<Longrightarrow>
   str_nat (decimal_value ds) = ds"
proof (induction ds rule: rev_induct)
  case Nil
  then show ?case by simp
next
  case (snoc c ds)
  from snoc.prems have c: "is_digit c" and all: "list_all is_digit ds" by simp_all
  show ?case
  proof (cases "ds = []")
    case True
    with c show ?thesis
      by (simp add: decimal_value_def str_nat.simps [of "digit_val c"] digit_val_less digit_char_digit_val)
  next
    case False
    with snoc.prems have nz: "hd ds \<noteq> CHR ''0''" by (cases ds) auto
    with False all have pos: "0 < decimal_value ds" by (simp add: decimal_value_pos)
    from False all nz have IH: "str_nat (decimal_value ds) = ds" by (simp add: snoc.IH)
    have val: "decimal_value (ds @ [c]) = 10 * decimal_value ds + digit_val c"
      by (simp add: decimal_value_def)
    from pos have "\<not> 10 * decimal_value ds + digit_val c < 10" by simp
    moreover have "(10 * decimal_value ds + digit_val c) div 10 = decimal_value ds"
      using digit_val_less [OF c] by simp
    moreover have "(10 * decimal_value ds + digit_val c) mod 10 = digit_val c"
      using digit_val_less [OF c] by simp
    ultimately show ?thesis
      by (simp add: val str_nat.simps [of "10 * decimal_value ds + digit_val c"] IH digit_char_digit_val c)
  qed
qed


section \<open>Splitting, joining and packing octets\<close>


lemma str_split_nonempty: "str_split sep s \<noteq> []"
  by (induction s) simp_all

text \<open>
  For evaluation, the split of the rest of the string is computed once.
\<close>

lemma str_split_code [code]:
  "str_split sep [] = [[]]"
  "str_split sep (c # cs) =
     (case str_split sep cs of
        [] \<Rightarrow> [[c]]
      | f # fs \<Rightarrow> if c = sep then [] # f # fs else (c # f) # fs)"
proof -
  show "str_split sep [] = [[]]" by simp
  show "str_split sep (c # cs) =
     (case str_split sep cs of
        [] \<Rightarrow> [[c]]
      | f # fs \<Rightarrow> if c = sep then [] # f # fs else (c # f) # fs)"
    using str_split_nonempty [of sep cs] by (cases "str_split sep cs") simp_all
qed

lemma str_split_no_sep: "sep \<notin> set s \<Longrightarrow> str_split sep s = [s]"
  by (induction s) auto

lemma str_split_append:
  "sep \<notin> set xs \<Longrightarrow> str_split sep (xs @ sep # ys) = xs # str_split sep ys"
  by (induction xs) auto

lemma str_join_Cons:
  "fs \<noteq> [] \<Longrightarrow> str_join sep (f # fs) = f @ sep @ str_join sep fs"
  by (cases fs) simp_all

lemma str_join_split: "str_join [sep] (str_split sep s) = s"
proof (induction s)
  case Nil
  show ?case by simp
next
  case (Cons c s)
  obtain f fs where split: "str_split sep s = f # fs"
    using str_split_nonempty [of sep s] by (cases "str_split sep s") auto
  show ?case
  proof (cases "c = sep")
    case True
    with Cons show ?thesis by (simp add: str_join_Cons str_split_nonempty)
  next
    case False
    with Cons split show ?thesis by (cases fs) simp_all
  qed
qed

lemma octet_mask: "(0xFF :: int) = mask 8"
  by (simp add: mask_eq_exp_minus_1)

lemma word_mask: "(0xFFFFFFFF :: int) = mask 32"
  by (simp add: mask_eq_exp_minus_1)

lemma octet_take_bit: "0 \<le> a \<Longrightarrow> a < 256 \<Longrightarrow> take_bit 8 a = (a::int)"
  by (simp add: take_bit_int_eq_self)

lemma unpack_pack:
  fixes a b c d :: int
  assumes "0 \<le> a" "a < 256" "0 \<le> b" "b < 256" "0 \<le> c" "c < 256" "0 \<le> d" "d < 256"
  defines "n \<equiv> push_bit 24 a OR push_bit 16 b OR push_bit 8 c OR d"
  shows "drop_bit 24 n AND 0xFF = a" "drop_bit 16 n AND 0xFF = b"
    "drop_bit 8 n AND 0xFF = c" "drop_bit 0 n AND 0xFF = d"
proof -
  have n: "n = push_bit 24 (take_bit 8 a) OR push_bit 16 (take_bit 8 b)
      OR push_bit 8 (take_bit 8 c) OR take_bit 8 d"
    using assms by (simp add: n_def octet_take_bit)
  have "drop_bit 24 n AND mask 8 = take_bit 8 a"
    unfolding n by (rule bit_eqI) (auto simp add: bit_simps)
  then show "drop_bit 24 n AND 0xFF = a" using assms by (simp add: octet_mask octet_take_bit)
  have "drop_bit 16 n AND mask 8 = take_bit 8 b"
    unfolding n by (rule bit_eqI) (auto simp add: bit_simps)
  then show "drop_bit 16 n AND 0xFF = b" using assms by (simp add: octet_mask octet_take_bit)
  have "drop_bit 8 n AND mask 8 = take_bit 8 c"
    unfolding n by (rule bit_eqI) (auto simp add: bit_simps)
  then show "drop_bit 8 n AND 0xFF = c" using assms by (simp add: octet_mask octet_take_bit)
  have "drop_bit 0 n AND mask 8 = take_bit 8 d"
    unfolding n by (rule bit_eqI) (auto simp add: bit_simps)
  then show "drop_bit 0 n AND 0xFF = d" using assms by (simp add: octet_mask octet_take_bit)
qed

lemma pack_range:
  fixes a b c d :: int
  assumes "0 \<le> a" "a < 256" "0 \<le> b" "b < 256" "0 \<le> c" "c < 256" "0 \<le> d" "d < 256"
  shows "take_bit 32 (push_bit 24 a OR push_bit 16 b OR push_bit 8 c OR d)
     = push_bit 24 a OR push_bit 16 b OR push_bit 8 c OR d"
proof -
  have "push_bit 24 a OR push_bit 16 b OR push_bit 8 c OR d = push_bit 24 (take_bit 8 a) OR push_bit 16 (take_bit 8 b)
      OR push_bit 8 (take_bit 8 c) OR take_bit 8 d"
    using assms by (simp add: octet_take_bit)
  also have "take_bit 32 \<dots> = \<dots>"
    by (rule bit_eqI) (auto simp add: bit_simps)
  finally show ?thesis using assms by (simp add: octet_take_bit)
qed

lemma pack_unpack:
  "push_bit 24 (drop_bit 24 n AND 0xFF) OR push_bit 16 (drop_bit 16 n AND 0xFF)
     OR push_bit 8 (drop_bit 8 n AND 0xFF) OR (drop_bit 0 n AND 0xFF) = take_bit 32 (n::int)"
  unfolding octet_mask
proof (rule bit_eqI)
  fix k :: nat
  consider "k < 8" | "8 \<le> k" "k < 16" | "16 \<le> k" "k < 24" | "24 \<le> k" "k < 32" | "32 \<le> k"
    by linarith
  then show "bit (push_bit 24 (drop_bit 24 n AND mask 8) OR push_bit 16 (drop_bit 16 n AND mask 8)
     OR push_bit 8 (drop_bit 8 n AND mask 8) OR (drop_bit 0 n AND mask 8)) k = bit (take_bit 32 n) k"
    by cases (auto simp add: bit_simps)
qed

lemma octet_range: "0 \<le> drop_bit s n AND (0xFF::int)" "drop_bit s n AND (0xFF::int) < 256"
proof -
  have "drop_bit s n AND (0xFF::int) = take_bit 8 (drop_bit s n)"
    by (simp add: octet_mask take_bit_eq_mask)
  then show "0 \<le> drop_bit s n AND (0xFF::int)" "drop_bit s n AND (0xFF::int) < 256"
    using take_bit_int_less_exp [of 8 "drop_bit s n"] by simp_all
qed

lemma hostmask_mask: "hostmask p = mask (32 - p)"
  by (simp add: hostmask_def mask_eq_exp_minus_1)

lemma netmask_bits: "p \<le> 32 \<Longrightarrow> netmask p = push_bit (32 - p) (mask p)"
  by (simp add: netmask_def mask_eq_exp_minus_1 push_bit_eq_mult algebra_simps flip: power_add)

lemma mask_code:
  "p \<le> 32 \<Longrightarrow> push_bit (32 - p) (0xFFFFFFFF::int) AND 0xFFFFFFFF = netmask p"
  unfolding word_mask netmask_bits
  by (rule bit_eqI) (auto simp add: bit_simps)

lemma not_mask_code:
  "p \<le> 32 \<Longrightarrow> NOT (netmask p) AND (0xFFFFFFFF::int) = hostmask p"
  unfolding word_mask netmask_bits hostmask_mask
  by (rule bit_eqI) (auto simp add: bit_simps)

lemma network_range:
  assumes "p \<le> 32"
  shows "(n AND netmask p) OR hostmask p = (n AND netmask p) + hostmask p"
proof -
  have "(n AND netmask p) AND hostmask p = 0"
    unfolding netmask_bits [OF assms] hostmask_mask
    by (rule bit_eqI) (auto simp add: bit_simps)
  then show ?thesis
    by (simp add: disjunctive_add_eq_or bit_eq_iff bit_simps)
qed


section \<open>Parsing and expanding valid strings\<close>


lemma str_nonneg: "0 \<le> i \<Longrightarrow> str i = str_nat (nat i)"
  by (simp add: str_def)

lemma intToIP_unfold:
  "intToIP n = str (drop_bit 24 n AND 0xFF) @ ''.'' @ str (drop_bit 16 n AND 0xFF) @ ''.''
     @ str (drop_bit 8 n AND 0xFF) @ ''.'' @ str (drop_bit 0 n AND 0xFF)"
  by (simp add: intToIP_def)

lemma dot_not_in_str_nat: "CHR ''.'' \<notin> set (str_nat k)"
  using str_nat_digits [of k] is_digit_not_special by (auto simp add: list_all_iff)

lemma str_split_dotted:
  "str_split CHR ''.'' (str_nat a @ ''.'' @ str_nat b @ ''.'' @ str_nat c @ ''.'' @ str_nat d)
     = [str_nat a, str_nat b, str_nat c, str_nat d]"
  by (simp add: str_split_append str_split_no_sep dot_not_in_str_nat)

lemma IPToInt_dotted:
  assumes "a < 1000" "b < 1000" "c < 1000" "d < 1000"
  shows "IPToInt (str_nat a @ ''.'' @ str_nat b @ ''.'' @ str_nat c @ ''.'' @ str_nat d)
     = Inr (push_bit 24 (int a) OR push_bit 16 (int b) OR push_bit 8 (int c) OR int d)"
  unfolding IPToInt_def str_split_dotted using assms by (simp add: int_py_str_nat)

lemma IPToInt_intToIP_take_bit: "IPToInt (intToIP n) = Inr (take_bit 32 n)"
proof -
  let ?o = "\<lambda>s. drop_bit s n AND (0xFF::int)"
  have "intToIP n = str_nat (nat (?o 24)) @ ''.'' @ str_nat (nat (?o 16)) @ ''.''
      @ str_nat (nat (?o 8)) @ ''.'' @ str_nat (nat (?o 0))"
    unfolding intToIP_unfold by (simp only: str_nonneg octet_range)
  moreover have "nat (?o s) < 1000" for s
    using octet_range [of s n] by linarith
  ultimately have "IPToInt (intToIP n) = Inr (push_bit 24 (?o 24) OR push_bit 16 (?o 16)
      OR push_bit 8 (?o 8) OR ?o 0)"
    by (simp only: IPToInt_dotted int_nat_eq octet_range if_True)
  then show ?thesis by (simp only: pack_unpack)
qed

lemma decimal_upto_length:
  assumes "decimal_upto m f" "m < 1000"
  shows "length f \<le> 3"
proof -
  from assms(1) have "str_nat (decimal_value f) = f" "decimal_value f \<le> m"
    by (simp_all add: decimal_upto_def str_nat_decimal_value)
  with assms(2) str_nat_length [of "decimal_value f"] show ?thesis by simp
qed

lemma decimal_upto_int_py:
  assumes "decimal_upto m f" "m < 1000"
  shows "int_py f = Some (int (decimal_value f))"
  using assms decimal_upto_length [OF assms] by (simp add: decimal_upto_def int_py_digits)

lemma decimal_upto_str: "decimal_upto m f \<Longrightarrow> str (int (decimal_value f)) = f"
  by (simp add: decimal_upto_def str_def str_nat_decimal_value)

lemma valid_ip_fields:
  assumes "valid_ip s"
  obtains a b c d where "str_split CHR ''.'' s = [a, b, c, d]"
    "decimal_upto 255 a" "decimal_upto 255 b" "decimal_upto 255 c" "decimal_upto 255 d"
proof -
  from assms have len: "length (str_split CHR ''.'' s) = 4"
    and all: "list_all (decimal_upto 255) (str_split CHR ''.'' s)"
    by (simp_all add: valid_ip_def)
  from len obtain a b c d where "str_split CHR ''.'' s = [a, b, c, d]"
    by (auto simp add: length_Suc_conv numeral_eq_Suc)
  with all that show thesis by simp
qed

lemma valid_ip_roundtrip:
  assumes "valid_ip s"
  shows "\<exists>n. IPToInt s = Inr n \<and> 0 \<le> n \<and> n < 2 ^ 32 \<and> intToIP n = s"
proof -
  from assms obtain a b c d where split: "str_split CHR ''.'' s = [a, b, c, d]"
    and a: "decimal_upto 255 a" and b: "decimal_upto 255 b"
    and c: "decimal_upto 255 c" and d: "decimal_upto 255 d"
    by (rule valid_ip_fields)
  let ?a = "int (decimal_value a)" and ?b = "int (decimal_value b)"
  let ?c = "int (decimal_value c)" and ?d = "int (decimal_value d)"
  let ?n = "push_bit 24 ?a OR push_bit 16 ?b OR push_bit 8 ?c OR ?d"
  have range: "0 \<le> ?a" "?a < 256" "0 \<le> ?b" "?b < 256" "0 \<le> ?c" "?c < 256" "0 \<le> ?d" "?d < 256"
    using a b c d by (simp_all add: decimal_upto_def)
  have parse: "IPToInt s = Inr ?n"
    by (simp add: IPToInt_def split decimal_upto_int_py [OF a] decimal_upto_int_py [OF b]
        decimal_upto_int_py [OF c] decimal_upto_int_py [OF d])
  have "take_bit 32 ?n = ?n" using range by (rule pack_range)
  then have bounds: "0 \<le> ?n" "?n < 2 ^ 32"
    using take_bit_nonnegative [of 32 ?n] take_bit_int_less_exp [of 32 ?n] by simp_all
  have "intToIP ?n = str ?a @ ''.'' @ str ?b @ ''.'' @ str ?c @ ''.'' @ str ?d"
    unfolding intToIP_unfold by (simp only: unpack_pack [OF range])
  also have "\<dots> = str_join ''.'' [a, b, c, d]"
    by (simp add: decimal_upto_str [OF a] decimal_upto_str [OF b] decimal_upto_str [OF c]
        decimal_upto_str [OF d])
  also have "\<dots> = s"
    using str_join_split [of "CHR ''.''" s] by (simp add: split)
  finally show ?thesis using parse bounds by blast
qed

lemma cidrToIPS_parsed:
  assumes "str_split CHR ''/'' cidr = [ip, pfx]" "int_py pfx = Some (int p)" "p \<le> 32"
    and "IPToInt ip = Inr n"
  shows "cidrToIPS cidr = Inr (map intToIP [n AND netmask p .. (n AND netmask p) OR hostmask p])"
proof -
  from \<open>p \<le> 32\<close> have "nat (32 - int p) = 32 - p" by simp
  with assms show ?thesis
    by (simp add: cidrToIPS_def Let_def mask_code not_mask_code sys_maxsize_def)
qed

lemma interval_length:
  assumes "p \<le> 32"
  shows "length (map intToIP [n AND netmask p .. (n AND netmask p) OR hostmask p]) = 2 ^ (32 - p)"
proof -
  have "nat (hostmask p + 1) = 2 ^ (32 - p)"
    by (simp add: hostmask_def nat_power_eq)
  then show ?thesis by (simp add: network_range [OF assms])
qed

lemma valid_cidr_expand:
  assumes "valid_cidr cidr"
  shows "\<exists>ip pfx n p. str_split CHR ''/'' cidr = [ip, pfx] \<and> IPToInt ip = Inr n \<and> intToIP n = ip \<and> 0 \<le> n \<and> n < 2 ^ 32 \<and>
      int_py pfx = Some (int p) \<and> p \<le> 32 \<and>
      cidrToIPS cidr = Inr (map intToIP [n AND netmask p .. (n AND netmask p) OR hostmask p])"
proof -
  from assms obtain ip pfx where split: "str_split CHR ''/'' cidr = [ip, pfx]"
    and ip: "valid_ip ip" and pfx: "decimal_upto 32 pfx"
    by (auto simp add: valid_cidr_def split: list.splits)
  from ip obtain n where n: "IPToInt ip = Inr n" "intToIP n = ip" "0 \<le> n" "n < 2 ^ 32"
    using valid_ip_roundtrip by blast
  let ?p = "decimal_value pfx"
  from pfx have p: "int_py pfx = Some (int ?p)" "?p \<le> 32"
    using decimal_upto_int_py [OF pfx] by (simp_all add: decimal_upto_def)
  from cidrToIPS_parsed [OF split p n(1)] split n p show ?thesis by blast
qed

lemma network_32: "0 \<le> n \<Longrightarrow> n < 2 ^ 32 \<Longrightarrow> n AND netmask 32 = n" "hostmask 32 = 0"
proof -
  have "netmask 32 = mask 32" by (simp add: netmask_def mask_eq_exp_minus_1)
  then show "0 \<le> n \<Longrightarrow> n < 2 ^ 32 \<Longrightarrow> n AND netmask 32 = n"
    by (simp add: take_bit_int_eq_self flip: take_bit_eq_mask)
  show "hostmask 32 = 0" by (simp add: hostmask_def)
qed




section \<open>The scan loop\<close>

lemma print_line_cases:
  obtains (raises) e w' where "print_line E s st = (Inl e, (fst st, w'))"
  | (prints) w' where "print_line E s st = (Inr (), (fst st @ [s], w'))"
proof (cases "stdout_write E s (snd st)")
  case (Pair r w')
  show ?thesis
  proof (cases r)
    case (Inl e)
    with Pair have "print_line E s st = (Inl e, (fst st, w'))" by (simp add: print_line_def)
    then show ?thesis by (rule raises)
  next
    case (Inr u)
    with Pair have "print_line E s st = (Inr (), (fst st @ [s], w'))"
      by (simp add: print_line_def)
    then show ?thesis by (rule prints)
  qed
qed

lemma print_line_Inr:
  assumes "print_line E s st = (Inr u, st')"
  shows "fst st' = fst st @ [s]"
  using assms by (cases rule: print_line_cases [of E s st]) auto

lemma count_status_simps:
  "count_status s [] = 0"
  "count_status s (rs @ rs') = count_status s rs + count_status s rs'"
  "count_status s [r] = (if rec_status r = s then 1 else 0)"
  by (simp_all add: count_status_def)

lemma count_status_total:
  "\<forall>r \<in> set rs. rec_status r = ''active'' \<or> rec_status r = ''inactive'' \<Longrightarrow>
   count_status ''active'' rs + count_status ''inactive'' rs = int (length rs)"
  by (induction rs) (auto simp add: count_status_def)

text \<open>
  One pass that does not raise appends one record for the host, adds one to exactly one
  counter, and prints three lines for an active host and two for an inactive one.
\<close>

lemma runList_body_Inr:
  assumes "runList_body E host a i rs st = (Inr (a', i', rs'), st')"
  shows "\<exists>r lines. rs' = rs @ [r] \<and> rec_ip r = host \<and> fst st' = fst st @ lines \<and>
     (rec_status r = ''active'' \<and> a' = a + 1 \<and> i' = i \<and> length lines = 3 \<or>
      rec_status r = ''inactive'' \<and> a' = a \<and> i' = i + 1 \<and> length lines = 2)"
proof (cases rule: print_line_cases [of E "''Pinging '' @ host @ ''...''" st])
  case (raises e w')
  with assms show ?thesis by (simp add: runList_body_def)
next
  case (prints w1)
  let ?out1 = "fst st @ [''Pinging '' @ host @ ''...'']"
  obtain r2 w2 where ping: "pingHost E host w1 = (r2, w2)" by (cases "pingHost E host w1")
  obtain r3 w3 where dns: "reverseDNS E host w2 = (r3, w3)" by (cases "reverseDNS E host w2")
  show ?thesis
  proof (cases r2)
    case (Inl e)
    with assms prints ping show ?thesis by (simp add: runList_body_def)
  next
    case response: (Inr response)
    show ?thesis
    proof (cases r3)
      case (Inl e)
      with assms prints ping response dns show ?thesis by (simp add: runList_body_def)
    next
      case info: (Inr info)
      show ?thesis
      proof (cases "response = 0")
        case True
        let ?l2 = "host @ '' is reachable.''"
        let ?l3 = "''  Hostname: '' @ (case dns_hostname info of None \<Rightarrow> ''None'' | Some h \<Rightarrow> h)"
        let ?r = "\<lparr>rec_ip = host, rec_status = ''active'', rec_dns = info\<rparr>"
        show ?thesis
        proof (cases rule: print_line_cases [of E ?l2 "(?out1, w3)"])
          case (raises e w')
          with assms prints ping response dns info True show ?thesis
            by (simp add: runList_body_def)
        next
          case p2: (prints w4)
          show ?thesis
          proof (cases rule: print_line_cases [of E ?l3 "(?out1 @ [?l2], w4)"])
            case (raises e w')
            with assms prints ping response dns info True p2 show ?thesis
              by (simp add: runList_body_def)
          next
            case p3: (prints w5)
            with assms prints ping response dns info True p2
            have res: "a' = a + 1" "i' = i" "rs' = rs @ [?r]"
              "st' = (?out1 @ [?l2] @ [?l3], w5)"
              by (simp_all add: runList_body_def)
            let ?lines = "[''Pinging '' @ host @ ''...'', ?l2, ?l3]"
            from res have "rs' = rs @ [?r] \<and> rec_ip ?r = host \<and> fst st' = fst st @ ?lines \<and>
               (rec_status ?r = ''active'' \<and> a' = a + 1 \<and> i' = i \<and> length ?lines = 3 \<or>
                rec_status ?r = ''inactive'' \<and> a' = a \<and> i' = i + 1 \<and> length ?lines = 2)"
              by simp
            then show ?thesis by (intro exI [where x = ?r] exI [where x = ?lines])
          qed
        qed
      next
        case False
        let ?l2 = "host @ '' is not reachable.''"
        let ?r = "\<lparr>rec_ip = host, rec_status = ''inactive'', rec_dns = info\<rparr>"
        show ?thesis
        proof (cases rule: print_line_cases [of E ?l2 "(?out1, w3)"])
          case (raises e w')
          with assms prints ping response dns info False show ?thesis
            by (simp add: runList_body_def)
        next
          case p2: (prints w4)
          with assms prints ping response dns info False
          have res: "a' = a" "i' = i + 1" "rs' = rs @ [?r]" "st' = (?out1 @ [?l2], w4)"
            by (simp_all add: runList_body_def)
          let ?lines = "[''Pinging '' @ host @ ''...'', ?l2]"
          from res have "rs' = rs @ [?r] \<and> rec_ip ?r = host \<and> fst st' = fst st @ ?lines \<and>
             (rec_status ?r = ''active'' \<and> a' = a + 1 \<and> i' = i \<and> length ?lines = 3 \<or>
              rec_status ?r = ''inactive'' \<and> a' = a \<and> i' = i + 1 \<and> length ?lines = 2)"
            by simp
          then show ?thesis by (intro exI [where x = ?r] exI [where x = ?lines])
        qed
      qed
    qed
  qed
qed

lemma count_status_nonneg: "0 \<le> count_status s rs"
  by (simp add: count_status_def)

lemma count_status_Cons:
  "count_status s (r # rs) = (if rec_status r = s then 1 else 0) + count_status s rs"
  by (simp add: count_status_def)

lemma runList_loop_acc:
  assumes "runList_loop E hosts a i rs st = (Inr (a', i', rs'), st')"
  shows "\<exists>new lines. rs' = rs @ new \<and> map rec_ip new = hosts \<and>
     a' = a + count_status ''active'' new \<and> i' = i + count_status ''inactive'' new \<and>
     (\<forall>r \<in> set new. rec_status r = ''active'' \<or> rec_status r = ''inactive'') \<and>
     fst st' = fst st @ lines \<and>
     length lines = 2 * length hosts + nat (count_status ''active'' new)"
  using assms
proof (induction hosts arbitrary: a i rs st)
  case Nil
  then have "rs' = rs @ [] \<and> map rec_ip [] = [] \<and>
     a' = a + count_status ''active'' [] \<and> i' = i + count_status ''inactive'' [] \<and>
     (\<forall>r \<in> set ([] :: scan_record list). rec_status r = ''active'' \<or> rec_status r = ''inactive'') \<and>
     fst st' = fst st @ [] \<and>
     length ([] :: string list) = 2 * length ([] :: string list) + nat (count_status ''active'' [])"
    by (simp add: count_status_def)
  then show ?case by (intro exI [where x = "[]"])
next
  case (Cons host hosts)
  obtain rb st1 where body: "runList_body E host a i rs st = (rb, st1)"
    by (cases "runList_body E host a i rs st")
  show ?case
  proof (cases rb)
    case (Inl e)
    with Cons.prems body show ?thesis by simp
  next
    case (Inr t)
    obtain a1 i1 rs1 where t: "t = (a1, i1, rs1)" by (cases t)
    with body Inr have body': "runList_body E host a i rs st = (Inr (a1, i1, rs1), st1)" by simp
    with Cons.prems have rest: "runList_loop E hosts a1 i1 rs1 st1 = (Inr (a', i', rs'), st')"
      by simp
    from runList_body_Inr [OF body'] obtain r lines1 where one: "rs1 = rs @ [r]" "rec_ip r = host"
      "fst st1 = fst st @ lines1"
      "rec_status r = ''active'' \<and> a1 = a + 1 \<and> i1 = i \<and> length lines1 = 3 \<or>
       rec_status r = ''inactive'' \<and> a1 = a \<and> i1 = i + 1 \<and> length lines1 = 2"
      by (elim exE conjE)
    from Cons.IH [OF rest] obtain new lines2 where more: "rs' = rs1 @ new" "map rec_ip new = hosts"
      "a' = a1 + count_status ''active'' new" "i' = i1 + count_status ''inactive'' new"
      "\<forall>r \<in> set new. rec_status r = ''active'' \<or> rec_status r = ''inactive''"
      "fst st' = fst st1 @ lines2"
      "length lines2 = 2 * length hosts + nat (count_status ''active'' new)"
      by (elim exE conjE)
    have pos: "0 \<le> count_status ''active'' new" by (rule count_status_nonneg)
    from one(4) have counts: "a1 = a + (if rec_status r = ''active'' then 1 else 0)"
      "i1 = i + (if rec_status r = ''inactive'' then 1 else 0)"
      "length lines1 = (if rec_status r = ''active'' then 3 else 2)"
      "rec_status r = ''active'' \<or> rec_status r = ''inactive''"
      by auto
    have len: "length (lines1 @ lines2)
        = 2 * length (host # hosts) + nat (count_status ''active'' (r # new))"
      using counts(3) more(7) pos
      by (cases "rec_status r = ''active''") (simp_all add: count_status_Cons nat_add_distrib)
    have "rs' = rs @ (r # new) \<and> map rec_ip (r # new) = host # hosts \<and>
       a' = a + count_status ''active'' (r # new) \<and>
       i' = i + count_status ''inactive'' (r # new) \<and>
       (\<forall>r \<in> set (r # new). rec_status r = ''active'' \<or> rec_status r = ''inactive'') \<and>
       fst st' = fst st @ (lines1 @ lines2) \<and>
       length (lines1 @ lines2)
         = 2 * length (host # hosts) + nat (count_status ''active'' (r # new))"
      using one(1,2,3) more(1-6) counts(1,2,4) len by (simp add: count_status_Cons)
    then show ?thesis by (intro exI [where x = "r # new"] exI [where x = "lines1 @ lines2"])
  qed
qed

lemma exportToCSV_Inr:
  assumes "exportToCSV E results output_file st = (Inr path, st')"
  shows "\<exists>line. fst st' = fst st @ [line]"
proof -
  obtain p w1 where ep: "export_path E output_file (snd st) = (p, w1)"
    by (cases "export_path E output_file (snd st)")
  obtain r w2 where wr: "to_csv E (map csv_row_of results) p w1 = (r, w2)"
    by (cases "to_csv E (map csv_row_of results) p w1")
  show ?thesis
  proof (cases r)
    case (Inl e)
    with assms ep wr show ?thesis by (simp add: exportToCSV_def)
  next
    case (Inr u)
    let ?line = "CHR 0x0A # ''Results exported to: '' @ p"
    show ?thesis
    proof (cases rule: print_line_cases [of E ?line "(fst st, w2)"])
      case (raises e w')
      with assms ep wr Inr show ?thesis by (simp add: exportToCSV_def)
    next
      case (prints w3)
      with assms ep wr Inr have "fst st' = fst st @ [?line]" by (auto simp add: exportToCSV_def)
      then show ?thesis by (rule exI [where x = ?line])
    qed
  qed
qed

text \<open>
  What a run that returns has done: the loop ran through the whole list from counters zero
  and an empty result list, the summary line with the final counters was printed after the
  lines of the loop, and the export, if requested, printed one more line.
\<close>

lemma runList_Inr:
  assumes "runList E hosts export_csv csv_file st = (Inr results, st')"
  shows "\<exists>active inactive st1 lines post.
     runList_loop E hosts 0 0 [] st = (Inr (active, inactive, results), st1) \<and>
     fst st1 = fst st @ lines \<and>
     fst st' = fst st @ lines @ summary_line active inactive # post \<and>
     length post = (if export_csv then 1 else 0)"
proof -
  obtain rl st1 where loop: "runList_loop E hosts 0 0 [] st = (rl, st1)"
    by (cases "runList_loop E hosts 0 0 [] st")
  show ?thesis
  proof (cases rl)
    case (Inl e)
    with assms loop show ?thesis by (simp add: runList_def)
  next
    case (Inr t)
    obtain a i rs where t: "t = (a, i, rs)" by (cases t)
    with loop Inr have loop': "runList_loop E hosts 0 0 [] st = (Inr (a, i, rs), st1)" by simp
    from runList_loop_acc [OF loop'] obtain lines where lines: "fst st1 = fst st @ lines"
      by (elim exE conjE)
    show ?thesis
    proof (cases rule: print_line_cases [of E "summary_line a i" st1])
      case (raises e w')
      with assms loop' show ?thesis by (simp add: runList_def)
    next
      case (prints w2)
      let ?st2 = "(fst st1 @ [summary_line a i], w2)"
      show ?thesis
      proof (cases export_csv)
        case False
        with assms loop' prints have "rs = results" "st' = ?st2" by (simp_all add: runList_def)
        with loop' lines False
        have "runList_loop E hosts 0 0 [] st = (Inr (a, i, results), st1) \<and>
          fst st1 = fst st @ lines \<and>
          fst st' = fst st @ lines @ summary_line a i # [] \<and>
          length ([] :: string list) = (if export_csv then 1 else 0)"
          by simp
        then show ?thesis
          by (intro exI [where x = a] exI [where x = i] exI [where x = st1]
              exI [where x = lines] exI [where x = "[]"])
      next
        case True
        obtain re st3 where ex: "exportToCSV E rs csv_file ?st2 = (re, st3)"
          by (cases "exportToCSV E rs csv_file ?st2")
        show ?thesis
        proof (cases re)
          case (Inl e)
          with assms loop' prints True ex show ?thesis by (simp add: runList_def)
        next
          case (Inr path)
          with assms loop' prints True ex have eq: "rs = results" "st' = st3"
            by (simp_all add: runList_def)
          from exportToCSV_Inr [of E rs csv_file ?st2 path st3] ex Inr
          obtain line where "fst st3 = fst ?st2 @ [line]" by auto
          with loop' lines True eq
          have "runList_loop E hosts 0 0 [] st = (Inr (a, i, results), st1) \<and>
            fst st1 = fst st @ lines \<and>
            fst st' = fst st @ lines @ summary_line a i # [line] \<and>
            length [line] = (if export_csv then 1 else 0)"
            by simp
          then show ?thesis
            by (intro exI [where x = a] exI [where x = i] exI [where x = st1]
                exI [where x = lines] exI [where x = "[line]"])
        qed
      qed
    qed
  qed
qed

lemma runList_result:
  assumes "runList E hosts export_csv csv_file st = (Inr results, st')"
  shows "length results = length hosts \<and> map rec_ip results = hosts"
proof -
  from runList_Inr [OF assms] obtain a i st1
    where loop: "runList_loop E hosts 0 0 [] st = (Inr (a, i, results), st1)"
    by (elim exE conjE)
  from runList_loop_acc [OF loop] have "map rec_ip results = hosts" by auto
  then show ?thesis by (metis length_map)
qed

text \<open>
  Under \<open>run_safe\<close> every call of the run returns and stays in the set of worlds.
\<close>

lemma run_safe_print:
  assumes "run_safe E hosts export_csv csv_file W" "snd st \<in> W"
  shows "\<exists>st'. print_line E s st = (Inr (), st') \<and> snd st' \<in> W"
proof -
  from assms obtain w' where "w' \<in> W" "stdout_write E s (snd st) = (Inr (), w')"
    unfolding run_safe_def by meson
  then have "print_line E s st = (Inr (), (fst st @ [s], w')) \<and> snd (fst st @ [s], w') \<in> W"
    by (simp add: print_line_def)
  then show ?thesis by (rule exI)
qed

lemma run_safe_ping:
  assumes "run_safe E hosts export_csv csv_file W" "w \<in> W" "h \<in> set hosts"
  shows "\<exists>response w'. pingHost E h w = (Inr response, w') \<and> w' \<in> W"
  using assms unfolding run_safe_def by meson

lemma run_safe_lookup:
  assumes "run_safe E hosts export_csv csv_file W" "w \<in> W" "h \<in> set hosts"
  shows "\<exists>info w'. reverseDNS E h w = (Inr info, w') \<and> w' \<in> W"
proof -
  from assms obtain r w' where look: "gethostbyaddr E h w = (r, w')" "w' \<in> W"
    and handled: "\<forall>e. r = Inl e \<longrightarrow> e = herror \<or> e = gaierror"
    unfolding run_safe_def by meson
  show ?thesis
  proof (cases r)
    case (Inl e)
    with handled have "e = herror \<or> e = gaierror" by simp
    with look Inl show ?thesis by (auto simp add: reverseDNS_def)
  next
    case (Inr t)
    with look show ?thesis by (cases t) (auto simp add: reverseDNS_def)
  qed
qed

lemma run_safe_body:
  assumes safe: "run_safe E hosts export_csv csv_file W" and st: "snd st \<in> W"
    and h: "host \<in> set hosts"
  shows "\<exists>res st'. runList_body E host a i rs st = (Inr res, st') \<and> snd st' \<in> W"
proof -
  from run_safe_print [OF safe st, where s = "''Pinging '' @ host @ ''...''"] obtain st1
    where p1: "print_line E (''Pinging '' @ host @ ''...'') st = (Inr (), st1)" "snd st1 \<in> W"
    by (elim exE conjE)
  from run_safe_ping [OF safe p1(2) h] obtain response w2
    where ping: "pingHost E host (snd st1) = (Inr response, w2)" "w2 \<in> W"
    by (elim exE conjE)
  from run_safe_lookup [OF safe ping(2) h] obtain info w3
    where dns: "reverseDNS E host w2 = (Inr info, w3)" "w3 \<in> W"
    by (elim exE conjE)
  from dns(2) have w3: "snd (fst st1, w3) \<in> W" by simp
  show ?thesis
  proof (cases "response = 0")
    case True
    from run_safe_print [OF safe w3, where s = "host @ '' is reachable.''"] obtain st4
      where p2: "print_line E (host @ '' is reachable.'') (fst st1, w3) = (Inr (), st4)"
        "snd st4 \<in> W"
      by (elim exE conjE)
    from run_safe_print [OF safe p2(2), where s = "''  Hostname: '' @
          (case dns_hostname info of None \<Rightarrow> ''None'' | Some h \<Rightarrow> h)"] obtain st5
      where p3: "print_line E (''  Hostname: '' @
          (case dns_hostname info of None \<Rightarrow> ''None'' | Some h \<Rightarrow> h)) st4 = (Inr (), st5)"
        "snd st5 \<in> W"
      by (elim exE conjE)
    from p1 ping dns True p2 p3 show ?thesis by (simp add: runList_body_def)
  next
    case False
    from run_safe_print [OF safe w3, where s = "host @ '' is not reachable.''"] obtain st4
      where p2: "print_line E (host @ '' is not reachable.'') (fst st1, w3) = (Inr (), st4)"
        "snd st4 \<in> W"
      by (elim exE conjE)
    from p1 ping dns False p2 show ?thesis by (simp add: runList_body_def)
  qed
qed

lemma run_safe_loop:
  assumes safe: "run_safe E hosts export_csv csv_file W"
  shows "set xs \<subseteq> set hosts \<Longrightarrow> snd st \<in> W \<Longrightarrow>
    \<exists>res st'. runList_loop E xs a i rs st = (Inr res, st') \<and> snd st' \<in> W"
proof (induction xs arbitrary: a i rs st)
  case Nil
  then show ?case by simp
next
  case (Cons host xs)
  from Cons.prems have h: "host \<in> set hosts" and sub: "set xs \<subseteq> set hosts" by simp_all
  from run_safe_body [OF safe Cons.prems(2) h, where a = a and i = i and rs = rs] obtain res st1
    where body: "runList_body E host a i rs st = (Inr res, st1)" "snd st1 \<in> W"
    by (elim exE conjE)
  obtain a1 i1 rs1 where res: "res = (a1, i1, rs1)" by (cases res)
  from Cons.IH [OF sub body(2), where a = a1 and i = i1 and rs = rs1] obtain res' st'
    where "runList_loop E xs a1 i1 rs1 st1 = (Inr res', st')" "snd st' \<in> W"
    by (elim exE conjE)
  with body res
  have "runList_loop E (host # xs) a i rs st = (Inr res', st') \<and> snd st' \<in> W" by simp
  then show ?case by (intro exI)
qed

lemma run_safe_export:
  assumes safe: "run_safe E hosts True csv_file W" and st: "snd st \<in> W"
  shows "\<exists>path st'. exportToCSV E results csv_file st = (Inr path, st')"
proof -
  from safe st obtain path w1 where ep: "export_path E csv_file (snd st) = (path, w1)" "w1 \<in> W"
    and wr: "\<forall>rows. \<exists>w2 \<in> W. to_csv E rows path w1 = (Inr (), w2)"
    unfolding run_safe_def by meson
  from wr obtain w2 where w2: "w2 \<in> W" "to_csv E (map csv_row_of results) path w1 = (Inr (), w2)"
    by meson
  from w2(1) have "snd (fst st, w2) \<in> W" by simp
  from run_safe_print [OF safe this,
      where s = "CHR 0x0A # ''Results exported to: '' @ path"] obtain st3
    where "print_line E (CHR 0x0A # ''Results exported to: '' @ path) (fst st, w2) = (Inr (), st3)"
    by (elim exE conjE)
  with ep w2 show ?thesis by (simp add: exportToCSV_def)
qed

lemma run_safe_runList:
  assumes safe: "run_safe E hosts export_csv csv_file W" and st: "snd st \<in> W"
  shows "\<exists>results st'. runList E hosts export_csv csv_file st = (Inr results, st')"
proof -
  from run_safe_loop [OF safe subset_refl st, where a = 0 and i = 0 and rs = "[]"]
  obtain res st1
    where loop: "runList_loop E hosts 0 0 [] st = (Inr res, st1)" "snd st1 \<in> W"
    by (elim exE conjE)
  obtain a i rs where res: "res = (a, i, rs)" by (cases res)
  from run_safe_print [OF safe loop(2), where s = "summary_line a i"] obtain st2
    where p: "print_line E (summary_line a i) st1 = (Inr (), st2)" "snd st2 \<in> W"
    by (elim exE conjE)
  show ?thesis
  proof (cases export_csv)
    case False
    with loop res p show ?thesis by (simp add: runList_def)
  next
    case True
    with safe have "run_safe E hosts True csv_file W" by simp
    from run_safe_export [OF this p(2), where results = rs] obtain path st3
      where "exportToCSV E rs csv_file st2 = (Inr path, st3)"
      by (elim exE)
    with loop res p True show ?thesis by (simp add: runList_def)
  qed
qed

section \<open>What the expander accepts\<close>

lemma IPToInt_cases:
  "IPToInt ip = Inl ValueError \<or> (\<exists>n. IPToInt ip = Inr n)"
  by (simp add: IPToInt_def split: list.splits option.splits)

lemma cidr_fields_shape:
  assumes "str_split CHR ''/'' cidr = [ip, pfx]"
  shows "cidr_fields cidr = Some (a, b, c, d, p) \<longleftrightarrow>
     int_py pfx = Some p \<and> (\<exists>fa fb fc fd. str_split CHR ''.'' ip = [fa, fb, fc, fd] \<and>
       int_py fa = Some a \<and> int_py fb = Some b \<and> int_py fc = Some c \<and> int_py fd = Some d)"
  using assms by (auto simp add: cidr_fields_def split: list.splits option.splits)

lemma cidr_fields_IPToInt:
  assumes "str_split CHR ''/'' cidr = [ip, pfx]" "cidr_fields cidr = Some (a, b, c, d, p)"
  shows "int_py pfx = Some p"
    and "IPToInt ip = Inr (push_bit 24 a OR push_bit 16 b OR push_bit 8 c OR d)"
proof -
  from assms cidr_fields_shape [OF assms(1), of a b c d p]
  obtain fa fb fc fd where p: "int_py pfx = Some p"
    and f: "str_split CHR ''.'' ip = [fa, fb, fc, fd]" "int_py fa = Some a" "int_py fb = Some b"
      "int_py fc = Some c" "int_py fd = Some d"
    by auto
  from p show "int_py pfx = Some p" .
  from f show "IPToInt ip = Inr (push_bit 24 a OR push_bit 16 b OR push_bit 8 c OR d)"
    by (simp add: IPToInt_def)
qed

lemma cidr_fields_None:
  assumes "str_split CHR ''/'' cidr = [ip, pfx]" "cidr_fields cidr = None"
  shows "int_py pfx = None \<or> IPToInt ip = Inl ValueError"
  using assms by (auto simp add: cidr_fields_def IPToInt_def split: list.splits option.splits)

lemma cidrToIPS_no_shape:
  assumes "\<not> (\<exists>ip pfx. str_split CHR ''/'' cidr = [ip, pfx])"
  shows "cidrToIPS cidr = Inl ValueError" and "cidr_fields cidr = None"
  using assms by (simp_all add: cidrToIPS_def cidr_fields_def split: list.splits)

lemma cidrToIPS_fields_None:
  assumes "cidr_fields cidr = None"
  shows "cidrToIPS cidr = Inl ValueError"
proof (cases "\<exists>ip pfx. str_split CHR ''/'' cidr = [ip, pfx]")
  case False
  then show ?thesis by (rule cidrToIPS_no_shape)
next
  case True
  then obtain ip pfx where shape: "str_split CHR ''/'' cidr = [ip, pfx]" by auto
  from cidr_fields_None [OF shape assms] show ?thesis
  proof
    assume "int_py pfx = None"
    with shape show ?thesis by (simp add: cidrToIPS_def)
  next
    assume "IPToInt ip = Inl ValueError"
    with shape show ?thesis by (cases "int_py pfx") (simp_all add: cidrToIPS_def)
  qed
qed

lemma cidrToIPS_fields_Some:
  assumes "cidr_fields cidr = Some (a, b, c, d, p)"
  shows "cidrToIPS cidr =
     (if 32 < p then Inl ValueError
      else if sys_maxsize < 32 - p then Inl ResourceError
      else Inr (map intToIP
        [(push_bit 24 a OR push_bit 16 b OR push_bit 8 c OR d)
            AND (push_bit (nat (32 - p)) 0xFFFFFFFF AND 0xFFFFFFFF) ..
         ((push_bit 24 a OR push_bit 16 b OR push_bit 8 c OR d)
            AND (push_bit (nat (32 - p)) 0xFFFFFFFF AND 0xFFFFFFFF))
           OR (NOT (push_bit (nat (32 - p)) 0xFFFFFFFF AND 0xFFFFFFFF) AND 0xFFFFFFFF)]))"
proof -
  from assms have "\<exists>ip pfx. str_split CHR ''/'' cidr = [ip, pfx]"
    using cidrToIPS_no_shape(2) [of cidr] by fastforce
  then obtain ip pfx where shape: "str_split CHR ''/'' cidr = [ip, pfx]" by auto
  from cidr_fields_IPToInt [OF shape assms] shape show ?thesis
    by (simp add: cidrToIPS_def Let_def)
qed

lemma cidrToIPS_fields_block:
  assumes "cidr_fields cidr = Some (a, b, c, d, p)" "0 \<le> p" "p \<le> 32"
  shows "cidrToIPS cidr = Inr (map intToIP
     [(push_bit 24 a OR push_bit 16 b OR push_bit 8 c OR d) AND netmask (nat p) ..
      ((push_bit 24 a OR push_bit 16 b OR push_bit 8 c OR d) AND netmask (nat p))
        OR hostmask (nat p)])"
proof -
  from assms(2,3) have "nat (32 - p) = 32 - nat p" "nat p \<le> 32" by simp_all
  with assms(2,3) show ?thesis
    by (simp add: cidrToIPS_fields_Some [OF assms(1)] mask_code not_mask_code sys_maxsize_def)
qed

text \<open>
  Some strings outside the canonical form: a prefix written with a no-break space is read
  as 32, a prefix above 32 makes the shift count negative, and a prefix so far below zero
  that the shift count exceeds \<open>sys.maxsize\<close> makes the shift fail.
\<close>

lemma cidrToIPS_examples:
  "cidrToIPS (''1.2.3.4/'' @ [CHR 0xA0] @ ''32'') = Inr [''1.2.3.4'']"
  "cidrToIPS ''1.2.3.4/40'' = Inl ValueError"
  "cidrToIPS ''1.2.3/24'' = Inl ValueError"
  "cidrToIPS ''1.2.3.4/-9999999999999999999999999999999'' = Inl ResourceError"
  by code_simp+


section \<open>The address round trip\<close>

text \<open>
  Claim C10. For every integer \<open>n\<close> with \<open>0 \<le> n < 2^32\<close>, parsing the dotted string of
  \<open>n\<close> gives \<open>n\<close> back: \<open>IPToInt (intToIP n) = n\<close>. Hence \<open>intToIP\<close> is injective on
  32-bit values.
\<close>

theorem IPToInt_intToIP:
  assumes "0 \<le> n" and "n < 2 ^ 32"
  shows "IPToInt (intToIP n) = Inr n \<and>
    (\<forall>m. 0 \<le> m \<and> m < 2 ^ 32 \<and> intToIP m = intToIP n \<longrightarrow> m = n)"
proof -
  have inv: "IPToInt (intToIP k) = Inr k" if "0 \<le> k" "k < 2 ^ 32" for k :: int
    using that by (simp add: IPToInt_intToIP_take_bit take_bit_int_eq_self)
  have "m = n" if "0 \<le> m" "m < 2 ^ 32" "intToIP m = intToIP n" for m
  proof -
    from that(1,2) have "Inr m = IPToInt (intToIP m)" by (simp only: inv)
    also have "\<dots> = IPToInt (intToIP n)" by (simp only: that(3))
    also from assms have "\<dots> = Inr n" by (rule inv)
    finally show ?thesis by (simp only: sum.inject)
  qed
  with assms inv show ?thesis by simp
qed

theorem IPToInt_intToIP_witness:
  "(0::int) \<le> 3232235777 \<and> (3232235777::int) < 2 ^ 32 \<and>
   IPToInt (intToIP 3232235777) = Inr 3232235777"
  using IPToInt_intToIP [of 3232235777] by simp

text \<open>
  Claim C5. For every valid dotted-decimal string \<open>s\<close> (four canonical decimal fields, each
  at most 255, and nothing else), \<open>IPToInt\<close> succeeds on \<open>s\<close> and \<open>intToIP\<close> of the
  parsed value is \<open>s\<close> again.
\<close>

theorem intToIP_IPToInt:
  assumes "valid_ip s"
  shows "\<exists>n. IPToInt s = Inr n \<and> intToIP n = s"
  using valid_ip_roundtrip [OF assms] by auto

theorem intToIP_IPToInt_witness:
  "valid_ip ''192.168.1.1'' \<and> IPToInt ''192.168.1.1'' = Inr 3232235777 \<and>
   intToIP 3232235777 = ''192.168.1.1''"
proof -
  have v: "valid_ip ''192.168.1.1''" by code_simp
  have p: "IPToInt ''192.168.1.1'' = Inr 3232235777" by code_simp
  from intToIP_IPToInt [OF v] obtain n
    where n: "IPToInt ''192.168.1.1'' = Inr n" "intToIP n = ''192.168.1.1''"
    by (elim exE conjE)
  from n(1) p have "n = 3232235777" by simp
  with n(2) v p show ?thesis by simp
qed

section \<open>Expanding a CIDR block\<close>

text \<open>
  Claim C4. For every valid CIDR string (a valid address, a slash, a canonical prefix
  length \<open>p\<close> in \<open>[0, 32]\<close>), \<open>cidrToIPS\<close> returns the dotted strings of the integers
  from \<open>network\<close> to \<open>broadcast\<close> in ascending order, where \<open>network\<close> is the parsed
  address with all but its top \<open>p\<close> bits cleared and \<open>broadcast\<close> is \<open>network\<close> with
  the low \<open>32 - p\<close> bits set. For \<open>p = 32\<close> the result is the address alone, and
  \<open>cidrToIPS "10.0.0.0/30"\<close> is \<open>10.0.0.0\<close>, \<open>10.0.0.1\<close>, \<open>10.0.0.2\<close>, \<open>10.0.0.3\<close>.
\<close>

theorem cidrToIPS_interval:
  "(valid_cidr cidr \<longrightarrow>
      (\<exists>ip pfx n p. str_split CHR ''/'' cidr = [ip, pfx] \<and> IPToInt ip = Inr n \<and>
         int_py pfx = Some (int p) \<and> p \<le> 32 \<and>
         cidrToIPS cidr = Inr (map intToIP [n AND netmask p .. (n AND netmask p) OR hostmask p]) \<and>
         (p = 32 \<longrightarrow> cidrToIPS cidr = Inr [ip]))) \<and>
   cidrToIPS ''10.0.0.0/30'' = Inr [''10.0.0.0'', ''10.0.0.1'', ''10.0.0.2'', ''10.0.0.3'']"
proof
  show "valid_cidr cidr \<longrightarrow>
      (\<exists>ip pfx n p. str_split CHR ''/'' cidr = [ip, pfx] \<and> IPToInt ip = Inr n \<and>
         int_py pfx = Some (int p) \<and> p \<le> 32 \<and>
         cidrToIPS cidr = Inr (map intToIP [n AND netmask p .. (n AND netmask p) OR hostmask p]) \<and>
         (p = 32 \<longrightarrow> cidrToIPS cidr = Inr [ip]))"
  proof
    assume "valid_cidr cidr"
    from valid_cidr_expand [OF this] obtain ip pfx n p
      where split: "str_split CHR ''/'' cidr = [ip, pfx]"
        and n: "IPToInt ip = Inr n" "intToIP n = ip" "0 \<le> n" "n < 2 ^ 32"
        and p: "int_py pfx = Some (int p)" "p \<le> 32"
        and run: "cidrToIPS cidr
          = Inr (map intToIP [n AND netmask p .. (n AND netmask p) OR hostmask p])"
      by (elim exE conjE)
    have "cidrToIPS cidr = Inr [ip]" if "p = 32"
      using run n that by (simp add: network_32)
    with split n p run show "\<exists>ip pfx n p. str_split CHR ''/'' cidr = [ip, pfx] \<and>
        IPToInt ip = Inr n \<and> int_py pfx = Some (int p) \<and> p \<le> 32 \<and>
        cidrToIPS cidr = Inr (map intToIP [n AND netmask p .. (n AND netmask p) OR hostmask p]) \<and>
        (p = 32 \<longrightarrow> cidrToIPS cidr = Inr [ip])"
      by (intro exI [where x = ip] exI [where x = pfx] exI [where x = n] exI [where x = p]) simp
  qed
  show "cidrToIPS ''10.0.0.0/30'' = Inr [''10.0.0.0'', ''10.0.0.1'', ''10.0.0.2'', ''10.0.0.3'']"
    by code_simp
qed

theorem cidrToIPS_interval_witness:
  "valid_cidr ''10.0.0.6/30'' \<and>
   cidrToIPS ''10.0.0.6/30'' = Inr (map intToIP [167772164 .. 167772167]) \<and>
   valid_cidr ''10.0.0.6/32'' \<and> cidrToIPS ''10.0.0.6/32'' = Inr [''10.0.0.6'']"
proof -
  have v: "valid_cidr ''10.0.0.6/30''" by code_simp
  from cidrToIPS_interval [of "''10.0.0.6/30''", THEN conjunct1, THEN mp, OF v] obtain ip pfx n p
    where split: "str_split CHR ''/'' ''10.0.0.6/30'' = [ip, pfx]"
      and n: "IPToInt ip = Inr n" and p: "int_py pfx = Some (int p)"
      and run: "cidrToIPS ''10.0.0.6/30''
        = Inr (map intToIP [n AND netmask p .. (n AND netmask p) OR hostmask p])"
    by (elim conjE exE)
  from split have ip: "ip = ''10.0.0.6''" and pfx: "pfx = ''30''" by simp_all
  have "IPToInt ''10.0.0.6'' = Inr 167772166" by code_simp
  with n ip have n': "n = 167772166" by simp
  have "int_py ''30'' = Some 30" by code_simp
  with p pfx have p': "p = 30" by simp
  have "(167772166::int) AND netmask 30 = 167772164" by (simp add: netmask_def)
  moreover have "(167772164::int) OR hostmask 30 = 167772167" by (simp add: hostmask_def)
  ultimately have r30: "cidrToIPS ''10.0.0.6/30'' = Inr (map intToIP [167772164 .. 167772167])"
    using run by (simp only: n' p')
  have w: "valid_cidr ''10.0.0.6/32''" by code_simp
  from cidrToIPS_interval [of "''10.0.0.6/32''", THEN conjunct1, THEN mp, OF w]
  obtain ip' pfx' and q :: nat
    where split': "str_split CHR ''/'' ''10.0.0.6/32'' = [ip', pfx']"
      and p32: "int_py pfx' = Some (int q)"
      and single: "q = 32 \<longrightarrow> cidrToIPS ''10.0.0.6/32'' = Inr [ip']"
    by (elim conjE exE)
  from split' have "ip' = ''10.0.0.6''" "pfx' = ''32''" by simp_all
  moreover have "int_py ''32'' = Some 32" by code_simp
  ultimately have "cidrToIPS ''10.0.0.6/32'' = Inr [''10.0.0.6'']"
    using p32 single by simp
  with v w r30 show ?thesis by simp
qed

text \<open>
  Claim C6, as the code has it. \<open>cidrToIPS\<close> raises \<open>ValueError\<close> exactly when the
  string cannot be read (it does not split into two parts at the slash, the address does
  not split into four fields at the dots, or \<open>int\<close> rejects one of the five fields) or
  the prefix is above 32. When the string can be read and the prefix is in \<open>[0, 32]\<close>, it
  returns the block that the packed octets and the prefix give, whatever the size of the
  octets: an octet above 255 is not rejected. A prefix below zero raises no
  \<open>ValueError\<close> either.
\<close>

theorem cidrToIPS_failure:
  "(cidrToIPS cidr = Inl ValueError \<longleftrightarrow>
      cidr_fields cidr = None \<or> (\<exists>a b c d p. cidr_fields cidr = Some (a, b, c, d, p) \<and> 32 < p)) \<and>
   (cidr_fields cidr = Some (a, b, c, d, p) \<and> 0 \<le> p \<and> p \<le> 32 \<longrightarrow>
      cidrToIPS cidr = Inr (map intToIP
        [(push_bit 24 a OR push_bit 16 b OR push_bit 8 c OR d) AND netmask (nat p) ..
         ((push_bit 24 a OR push_bit 16 b OR push_bit 8 c OR d) AND netmask (nat p))
           OR hostmask (nat p)]))"
proof (rule conjI)
  show "cidrToIPS cidr = Inl ValueError \<longleftrightarrow>
      cidr_fields cidr = None \<or> (\<exists>a b c d p. cidr_fields cidr = Some (a, b, c, d, p) \<and> 32 < p)"
  proof (cases "cidr_fields cidr")
    case None
    then show ?thesis by (simp add: cidrToIPS_fields_None)
  next
    case (Some t)
    obtain a' b' c' d' p' where t: "t = (a', b', c', d', p')" by (cases t)
    with Some have fields: "cidr_fields cidr = Some (a', b', c', d', p')" by simp
    show ?thesis
      by (simp add: cidrToIPS_fields_Some [OF fields] fields)
  qed
  show "cidr_fields cidr = Some (a, b, c, d, p) \<and> 0 \<le> p \<and> p \<le> 32 \<longrightarrow>
      cidrToIPS cidr = Inr (map intToIP
        [(push_bit 24 a OR push_bit 16 b OR push_bit 8 c OR d) AND netmask (nat p) ..
         ((push_bit 24 a OR push_bit 16 b OR push_bit 8 c OR d) AND netmask (nat p))
           OR hostmask (nat p)])"
    using cidrToIPS_fields_block [of cidr a b c d p] by (intro impI) (elim conjE)
qed

theorem cidrToIPS_failure_witness:
  "cidr_fields ''300.0.0.1/24'' = Some (300, 0, 0, 1, 24) \<and>
   cidrToIPS ''300.0.0.1/24'' = Inr (map intToIP [738197504 .. 738197759]) \<and>
   cidr_fields ''10.0.0.0/33'' = Some (10, 0, 0, 0, 33) \<and>
   cidrToIPS ''10.0.0.0/33'' = Inl ValueError \<and>
   cidr_fields ''10.0.0/24'' = None \<and> cidrToIPS ''10.0.0/24'' = Inl ValueError"
proof -
  have f1: "cidr_fields ''300.0.0.1/24'' = Some (300, 0, 0, 1, 24)" by code_simp
  have f2: "cidr_fields ''10.0.0.0/33'' = Some (10, 0, 0, 0, 33)" by code_simp
  have f3: "cidr_fields ''10.0.0/24'' = None" by code_simp
  have n: "push_bit 24 300 OR push_bit 16 0 OR push_bit 8 0 OR 1 = (5033164801 :: int)"
    by simp
  have "(5033164801::int) AND netmask 24 = 738197504" by (simp add: netmask_def)
  moreover have "(738197504::int) OR hostmask 24 = 738197759" by (simp add: hostmask_def)
  moreover note cidrToIPS_failure [of "''300.0.0.1/24''" 300 0 0 1 24, THEN conjunct2]
  ultimately have r1: "cidrToIPS ''300.0.0.1/24'' = Inr (map intToIP [738197504 .. 738197759])"
    using f1 n by simp
  from cidrToIPS_failure [of "''10.0.0.0/33''", THEN conjunct1] f2
  have r2: "cidrToIPS ''10.0.0.0/33'' = Inl ValueError" by simp
  from cidrToIPS_failure [of "''10.0.0/24''", THEN conjunct1] f3
  have r3: "cidrToIPS ''10.0.0/24'' = Inl ValueError" by simp
  from f1 f2 f3 r1 r2 r3 show ?thesis by (intro conjI)
qed

text \<open>
  The string \<open>300.0.0.1/24\<close> is expanded, not rejected: the packed value
  \<open>300 * 2^24 + 1\<close> is cut to 32 bits by the mask, which gives the block \<open>44.0.0.0/24\<close>.
\<close>

theorem cidrToIPS_octet_300: "cidrToIPS ''300.0.0.1/24'' = Inr (map intToIP [738197504 .. 738197759])"
proof -
  have split: "str_split CHR ''/'' ''300.0.0.1/24'' = [''300.0.0.1'', ''24'']" by simp
  have ip: "IPToInt ''300.0.0.1'' = Inr 5033164801" by code_simp
  have pfx: "int_py ''24'' = Some (int 24)" by code_simp
  have "(5033164801::int) AND netmask 24 = 738197504" by (simp add: netmask_def)
  moreover have "(738197504::int) OR hostmask 24 = 738197759" by (simp add: hostmask_def)
  ultimately show ?thesis
    using cidrToIPS_parsed [OF split pfx _ ip] by simp
qed

text \<open>
  Claim C7, as the code has it. There is no ceiling: for every valid CIDR string with
  prefix length \<open>p\<close>, \<open>cidrToIPS\<close> returns the whole block of \<open>2 ^ (32 - p)\<close> addresses.
\<close>

theorem cidrToIPS_full_expansion:
  assumes "valid_cidr cidr"
  shows "\<exists>ip pfx p ips. str_split CHR ''/'' cidr = [ip, pfx] \<and> int_py pfx = Some (int p) \<and>
     cidrToIPS cidr = Inr ips \<and> length ips = 2 ^ (32 - p)"
proof -
  from valid_cidr_expand [OF assms] obtain ip pfx n p
    where split: "str_split CHR ''/'' cidr = [ip, pfx]"
      and p: "int_py pfx = Some (int p)" "p \<le> 32"
      and run: "cidrToIPS cidr
        = Inr (map intToIP [n AND netmask p .. (n AND netmask p) OR hostmask p])"
    by (elim exE conjE)
  let ?ips = "map intToIP [n AND netmask p .. (n AND netmask p) OR hostmask p]"
  have "length ?ips = 2 ^ (32 - p)" using p(2) by (rule interval_length)
  with split p run show ?thesis
    by (intro exI [where x = ip] exI [where x = pfx] exI [where x = p] exI [where x = ?ips]) simp
qed

theorem cidrToIPS_full_expansion_witness:
  "valid_cidr ''192.168.0.0/16'' \<and>
   (\<exists>ips. cidrToIPS ''192.168.0.0/16'' = Inr ips \<and> length ips = 65536)"
proof -
  have v: "valid_cidr ''192.168.0.0/16''" by code_simp
  from cidrToIPS_full_expansion [OF v] obtain ip pfx p ips
    where split: "str_split CHR ''/'' ''192.168.0.0/16'' = [ip, pfx]"
      and p: "int_py pfx = Some (int p)"
      and run: "cidrToIPS ''192.168.0.0/16'' = Inr ips" "length ips = 2 ^ (32 - p)"
    by (elim exE conjE)
  from split have "pfx = ''16''" by simp
  moreover have "int_py ''16'' = Some 16" by code_simp
  ultimately have "p = 16" using p by simp
  with run have "cidrToIPS ''192.168.0.0/16'' = Inr ips \<and> length ips = 65536" by simp
  then have "\<exists>ips. cidrToIPS ''192.168.0.0/16'' = Inr ips \<and> length ips = 65536" ..
  with v show ?thesis by simp
qed

text \<open>
  The block \<open>0.0.0.0/8\<close> is expanded in full, to 16777216 addresses.
\<close>

theorem cidrToIPS_slash_8: "map_sum id length (cidrToIPS ''0.0.0.0/8'') = Inr 16777216"
proof -
  have split: "str_split CHR ''/'' ''0.0.0.0/8'' = [''0.0.0.0'', ''8'']" by simp
  have pfx: "int_py ''8'' = Some (int 8)" by code_simp
  have ip: "IPToInt ''0.0.0.0'' = Inr 0" by code_simp
  have "length (map intToIP [0 AND netmask 8 .. (0 AND netmask 8) OR hostmask 8]) = 2 ^ (32 - 8)"
    by (rule interval_length) simp
  with cidrToIPS_parsed [OF split pfx _ ip] show ?thesis by simp
qed

section \<open>Reverse lookup and ping\<close>

text \<open>
  The two failures that \<open>reverseDNS\<close> handles, and the success, give a dictionary: no
  PTR record (\<open>socket.herror\<close>) gives no host name and the error
  \<open>No PTR record found\<close>, \<open>socket.gaierror\<close> gives the error \<open>Invalid IP address\<close>.
\<close>

lemma reverseDNS_handled:
  "(gethostbyaddr E ip w = (Inl herror, w') \<longrightarrow>
      reverseDNS E ip w =
        (Inr \<lparr>dns_ip = ip, dns_hostname = None, dns_aliases = [], dns_addresses = [],
              dns_error = Some ''No PTR record found''\<rparr>, w')) \<and>
   (gethostbyaddr E ip w = (Inl gaierror, w') \<longrightarrow>
      reverseDNS E ip w =
        (Inr \<lparr>dns_ip = ip, dns_hostname = None, dns_aliases = [], dns_addresses = [],
              dns_error = Some ''Invalid IP address''\<rparr>, w')) \<and>
   (gethostbyaddr E ip w = (Inr (name, als, addrs), w') \<longrightarrow>
      reverseDNS E ip w =
        (Inr \<lparr>dns_ip = ip, dns_hostname = Some name, dns_aliases = als, dns_addresses = addrs,
              dns_error = None\<rparr>, w'))"
  by (simp add: reverseDNS_def)

text \<open>
  Claim C8. No failure of the name resolution is to leave \<open>reverseDNS\<close> as an exception:
  each is to come back as a dictionary with an \<open>error\<close> key, as the function's own
  documentation says. The code does not keep this for the malformed name \<open>a..b\<close>: the
  lookup raises an exception that is neither \<open>socket.herror\<close> nor \<open>socket.gaierror\<close>,
  and \<open>reverseDNS\<close> lets it through.
\<close>

theorem reverseDNS_propagates:
  "fst (reverseDNS strict_net ''a..b'' []) = Inl OtherException"
  by (simp add: reverseDNS_def strict_net_def lab_net_def)

text \<open>
  Claim C9, as the code has it. \<open>pingHost\<close> gives the shell one command line, made of
  \<open>ping -c 1\<close>, the host exactly as it was passed, and the redirection of the output;
  the result of \<open>pingHost\<close> is what the shell returns for that line.
\<close>

theorem pingHost_command_line:
  "pingHost E hostname w = os_system E (''ping -c 1 '' @ hostname @ '' > /dev/null 2>&1'') w"
  by (simp add: pingHost_def)

text \<open>
  A host string with a semicolon reaches the shell unchanged, as part of the command line.
\<close>

theorem pingHost_interpolates:
  "pingHost lab_net ''127.0.0.1; id'' []
     = (Inr 256, [Shell ''ping -c 1 127.0.0.1; id > /dev/null 2>&1''])"
  by (simp add: pingHost_def lab_net_def)

section \<open>The scan\<close>

text \<open>
  Claim C1, as the code has it. Whenever \<open>runList\<close> returns, it returns exactly one
  record per input address, in input order: the list of the records' \<open>ip\<close> fields is
  the input list. It does return when no call of the run ends it, that is, when there is a
  set \<open>W\<close> of worlds that contains the world at the start and in every world of which
  a line can be printed, the ping of a host of the list yields an exit status (zero or
  not), the lookup of a host of the list succeeds or raises \<open>socket.herror\<close> or
  \<open>socket.gaierror\<close>, and, if the export is requested, the CSV file of the run can be
  written, each of these calls leading to a world of \<open>W\<close> again. So a host that does
  not answer and a lookup that fails in one of these two ways never drop a record.
\<close>

theorem runList_one_record_per_host:
  "(runList E hosts export_csv csv_file st = (Inr results, st') \<longrightarrow>
      length results = length hosts \<and> map rec_ip results = hosts) \<and>
   (run_safe E hosts export_csv csv_file W \<and> snd st \<in> W \<longrightarrow>
      (\<exists>rs st''. runList E hosts export_csv csv_file st = (Inr rs, st'') \<and>
         length rs = length hosts \<and> map rec_ip rs = hosts))"
proof (rule conjI; rule impI)
  assume "runList E hosts export_csv csv_file st = (Inr results, st')"
  then show "length results = length hosts \<and> map rec_ip results = hosts"
    by (rule runList_result)
next
  assume "run_safe E hosts export_csv csv_file W \<and> snd st \<in> W"
  then have "run_safe E hosts export_csv csv_file W" "snd st \<in> W" by simp_all
  from run_safe_runList [OF this] obtain rs st''
    where run: "runList E hosts export_csv csv_file st = (Inr rs, st'')"
    by (elim exE)
  from runList_result [OF run] run
  show "\<exists>rs st''. runList E hosts export_csv csv_file st = (Inr rs, st'') \<and>
         length rs = length hosts \<and> map rec_ip rs = hosts"
    by (intro exI [where x = rs] exI [where x = st'']) simp
qed

theorem runList_one_record_per_host_witness:
  "run_safe strict_net [''10.0.0.1'', ''10.0.0.2''] True None UNIV \<and>
   fst (runList strict_net [''10.0.0.1'', ''10.0.0.2''] True None ([], [])) = Inr lab_records \<and>
   run_safe lab_net [''10.0.0.1'', ''10.0.0.2''] False (Some ''/no/such/dir/scan.csv'') UNIV \<and>
   fst (runList lab_net [''10.0.0.1'', ''10.0.0.2''] False (Some ''/no/such/dir/scan.csv'') ([], []))
     = Inr lab_records \<and>
   length lab_records = length [''10.0.0.1'', ''10.0.0.2''] \<and>
   map rec_ip lab_records = [''10.0.0.1'', ''10.0.0.2'']"
proof -
  let ?hosts = "[''10.0.0.1'', ''10.0.0.2'']"
  let ?run = "runList strict_net ?hosts True None ([], [])"
  let ?dry = "runList lab_net ?hosts False (Some ''/no/such/dir/scan.csv'') ([], [])"
  have safe: "run_safe strict_net ?hosts True None UNIV"
    by (simp add: run_safe_def strict_net_def lab_net_def pingHost_def export_path_def)
  have safe': "run_safe lab_net ?hosts False (Some ''/no/such/dir/scan.csv'') UNIV"
    by (simp add: run_safe_def lab_net_def pingHost_def)
  have val: "fst ?run = Inr lab_records" by code_simp
  then have run: "?run = (Inr lab_records, snd ?run)" by (simp add: prod_eq_iff)
  have val': "fst ?dry = Inr lab_records" by code_simp
  from runList_one_record_per_host [of strict_net ?hosts True None "([], [])" lab_records
      "snd ?run" UNIV, THEN conjunct1, THEN mp, OF run]
  have shape: "length lab_records = length ?hosts \<and> map rec_ip lab_records = ?hosts" .
  from runList_one_record_per_host [of lab_net ?hosts False "Some ''/no/such/dir/scan.csv''"
      "([], [])" lab_records "snd ?dry" UNIV, THEN conjunct2] safe'
  obtain rs st'' where "?dry = (Inr rs, st'')" by (elim impE exE conjE) simp_all
  with val' have "fst ?dry = Inr lab_records" by simp
  with safe safe' val shape show ?thesis by (intro conjI) simp_all
qed

text \<open>
  There is no handler in \<open>runList\<close>: when the CSV file cannot be written, the export
  raises after both addresses have been scanned, and \<open>runList\<close> returns no record.
\<close>

theorem runList_export_fails:
  "fst (runList lab_net [''10.0.0.1'', ''10.0.0.2''] True (Some ''/no/such/dir/scan.csv'') ([], []))
     = Inl OtherException"
  by code_simp

text \<open>
  Claim C2. When \<open>runList\<close> returns, the summary line it has printed, after the lines of
  the loop, shows two counters that add up to the number of input addresses; \<open>active\<close>
  is the number of returned records with status \<open>active\<close> and \<open>inactive\<close> the number
  of returned records with status \<open>inactive\<close>, there is one record per address, and
  every record has one of the two statuses. One pass of the loop appends one record and
  adds one to exactly one counter: to \<open>active\<close> when the record's status is \<open>active\<close>,
  to \<open>inactive\<close> otherwise.
\<close>

theorem summary_counters:
  "(runList E hosts export_csv csv_file st = (Inr results, st') \<longrightarrow>
      (\<exists>active inactive lines post.
         fst st' = fst st @ lines @ summary_line active inactive # post \<and>
         length lines = 2 * length hosts + nat active \<and>
         length post = (if export_csv then 1 else 0) \<and>
         active + inactive = int (length hosts) \<and>
         active = count_status ''active'' results \<and>
         inactive = count_status ''inactive'' results \<and>
         map rec_ip results = hosts \<and>
         (\<forall>r \<in> set results. rec_status r = ''active'' \<or> rec_status r = ''inactive''))) \<and>
   (runList_body E host a i rs s = (Inr (a', i', rs'), s') \<longrightarrow>
      (\<exists>r. rs' = rs @ [r] \<and> rec_ip r = host \<and>
         (rec_status r = ''active'' \<and> a' = a + 1 \<and> i' = i \<or>
          rec_status r = ''inactive'' \<and> a' = a \<and> i' = i + 1)))"
proof (rule conjI; rule impI)
  assume run: "runList E hosts export_csv csv_file st = (Inr results, st')"
  from runList_Inr [OF run] obtain active inactive st1 lines post
    where loop: "runList_loop E hosts 0 0 [] st = (Inr (active, inactive, results), st1)"
      and out: "fst st1 = fst st @ lines"
        "fst st' = fst st @ lines @ summary_line active inactive # post"
        "length post = (if export_csv then 1 else 0)"
    by (elim exE conjE)
  from runList_loop_acc [OF loop] obtain lines'
    where res: "map rec_ip results = hosts"
      and a: "active = count_status ''active'' results"
      and i: "inactive = count_status ''inactive'' results"
      and st: "\<forall>r \<in> set results. rec_status r = ''active'' \<or> rec_status r = ''inactive''"
      and out': "fst st1 = fst st @ lines'"
        "length lines' = 2 * length hosts + nat (count_status ''active'' results)"
    by auto
  from out(1) out'(1) have "lines' = lines" by simp
  with out'(2) a have len: "length lines = 2 * length hosts + nat active" by simp
  from res have "length results = length hosts" by (metis length_map)
  with count_status_total [OF st] a i have total: "active + inactive = int (length hosts)"
    by simp
  from out(2,3) len total a i res st
  have "fst st' = fst st @ lines @ summary_line active inactive # post \<and>
         length lines = 2 * length hosts + nat active \<and>
         length post = (if export_csv then 1 else 0) \<and>
         active + inactive = int (length hosts) \<and>
         active = count_status ''active'' results \<and>
         inactive = count_status ''inactive'' results \<and>
         map rec_ip results = hosts \<and>
         (\<forall>r \<in> set results. rec_status r = ''active'' \<or> rec_status r = ''inactive'')"
    by (intro conjI)
  then show "\<exists>active inactive lines post.
         fst st' = fst st @ lines @ summary_line active inactive # post \<and>
         length lines = 2 * length hosts + nat active \<and>
         length post = (if export_csv then 1 else 0) \<and>
         active + inactive = int (length hosts) \<and>
         active = count_status ''active'' results \<and>
         inactive = count_status ''inactive'' results \<and>
         map rec_ip results = hosts \<and>
         (\<forall>r \<in> set results. rec_status r = ''active'' \<or> rec_status r = ''inactive'')"
    by (intro exI [where x = active] exI [where x = inactive] exI [where x = lines]
        exI [where x = post])
next
  assume "runList_body E host a i rs s = (Inr (a', i', rs'), s')"
  from runList_body_Inr [OF this] obtain r
    where "rs' = rs @ [r]" "rec_ip r = host"
      "rec_status r = ''active'' \<and> a' = a + 1 \<and> i' = i \<or>
       rec_status r = ''inactive'' \<and> a' = a \<and> i' = i + 1"
    by auto
  then have "rs' = rs @ [r] \<and> rec_ip r = host \<and>
         (rec_status r = ''active'' \<and> a' = a + 1 \<and> i' = i \<or>
          rec_status r = ''inactive'' \<and> a' = a \<and> i' = i + 1)"
    by (intro conjI)
  then show "\<exists>r. rs' = rs @ [r] \<and> rec_ip r = host \<and>
         (rec_status r = ''active'' \<and> a' = a + 1 \<and> i' = i \<or>
          rec_status r = ''inactive'' \<and> a' = a \<and> i' = i + 1)"
    by (rule exI [where x = r])
qed

theorem summary_counters_witness:
  "fst (runList lab_net [''10.0.0.1'', ''10.0.0.2''] True None ([], [])) = Inr lab_records \<and>
   fst (snd (runList lab_net [''10.0.0.1'', ''10.0.0.2''] True None ([], []))) =
     [''Pinging 10.0.0.1...'', ''10.0.0.1 is reachable.'', ''  Hostname: gateway.lab'',
      ''Pinging 10.0.0.2...'', ''10.0.0.2 is not reachable.'',
      summary_line 1 1,
      CHR 0x0A # ''Results exported to: scan_results_20240101_120000.csv''] \<and>
   (\<exists>active inactive lines post.
      fst (snd (runList lab_net [''10.0.0.1'', ''10.0.0.2''] True None ([], [])))
        = lines @ summary_line active inactive # post \<and>
      length lines = 2 * length [''10.0.0.1'', ''10.0.0.2''] + nat active \<and>
      active + inactive = int (length [''10.0.0.1'', ''10.0.0.2'']) \<and>
      active = count_status ''active'' lab_records \<and>
      inactive = count_status ''inactive'' lab_records) \<and>
   count_status ''active'' lab_records = 1 \<and> count_status ''inactive'' lab_records = 1 \<and>
   fst (runList_body lab_net ''10.0.0.2'' 1 0 [hd lab_records] ([], []))
     = Inr (1, 1, lab_records) \<and>
   rec_ip (last lab_records) = ''10.0.0.2'' \<and> rec_status (last lab_records) = ''inactive''"
proof -
  let ?run = "runList lab_net [''10.0.0.1'', ''10.0.0.2''] True None ([], [])"
  let ?body = "runList_body lab_net ''10.0.0.2'' 1 0 [hd lab_records] ([], [])"
  have val: "fst ?run = Inr lab_records" by code_simp
  have out: "fst (snd ?run) =
     [''Pinging 10.0.0.1...'', ''10.0.0.1 is reachable.'', ''  Hostname: gateway.lab'',
      ''Pinging 10.0.0.2...'', ''10.0.0.2 is not reachable.'',
      summary_line 1 1,
      CHR 0x0A # ''Results exported to: scan_results_20240101_120000.csv'']"
    by code_simp
  have counts: "count_status ''active'' lab_records = 1"
    "count_status ''inactive'' lab_records = 1"
    by (simp_all add: count_status_def lab_records_def)
  from val have run: "?run = (Inr lab_records, (fst (snd ?run), snd (snd ?run)))"
    by (simp add: prod_eq_iff)
  from summary_counters [where E = lab_net and hosts = "[''10.0.0.1'', ''10.0.0.2'']"
      and export_csv = True and csv_file = None and st = "([], [])" and results = lab_records
      and st' = "(fst (snd ?run), snd (snd ?run))", THEN conjunct1, THEN mp, OF run]
  obtain active inactive lines post
    where "fst (snd ?run) = lines @ summary_line active inactive # post"
      "length lines = 2 * length [''10.0.0.1'', ''10.0.0.2''] + nat active"
      "active + inactive = int (length [''10.0.0.1'', ''10.0.0.2''])"
      "active = count_status ''active'' lab_records"
      "inactive = count_status ''inactive'' lab_records"
    by (elim exE conjE) simp
  then have "fst (snd ?run) = lines @ summary_line active inactive # post \<and>
      length lines = 2 * length [''10.0.0.1'', ''10.0.0.2''] + nat active \<and>
      active + inactive = int (length [''10.0.0.1'', ''10.0.0.2'']) \<and>
      active = count_status ''active'' lab_records \<and>
      inactive = count_status ''inactive'' lab_records"
    by (intro conjI)
  then have summary: "\<exists>active inactive lines post.
      fst (snd ?run) = lines @ summary_line active inactive # post \<and>
      length lines = 2 * length [''10.0.0.1'', ''10.0.0.2''] + nat active \<and>
      active + inactive = int (length [''10.0.0.1'', ''10.0.0.2'']) \<and>
      active = count_status ''active'' lab_records \<and>
      inactive = count_status ''inactive'' lab_records"
    by (intro exI)
  have bval: "fst ?body = Inr (1, 1, lab_records)" by code_simp
  then have body: "?body = (Inr (1, 1, lab_records), snd ?body)" by (simp add: prod_eq_iff)
  from summary_counters [where E = lab_net and host = "''10.0.0.2''" and a = 1 and i = 0
      and rs = "[hd lab_records]" and s = "([], [])" and a' = 1 and i' = 1
      and rs' = lab_records and s' = "snd ?body", THEN conjunct2, THEN mp, OF body]
  obtain r where r: "lab_records = [hd lab_records] @ [r]" "rec_ip r = ''10.0.0.2''"
    "rec_status r = ''active'' \<and> (1::int) = 1 + 1 \<and> (1::int) = 0 \<or>
     rec_status r = ''inactive'' \<and> (1::int) = 1 \<and> (1::int) = 0 + 1"
    by (elim exE conjE)
  from r(1) have "last lab_records = last ([hd lab_records] @ [r])" by (rule arg_cong)
  then have last: "last lab_records = r" by (simp only: last_snoc)
  from r(3) have "rec_status r = ''inactive''" by simp
  with r(2) last have shape: "rec_ip (last lab_records) = ''10.0.0.2''"
    "rec_status (last lab_records) = ''inactive''" by simp_all
  from val out summary counts bval shape show ?thesis by (intro conjI)
qed

end
